theory Spec2Isabelle
  imports Main "HOL-Library.AList" "HOL-Library.List_Lexorder" "HOL-Library.Char_ord"
begin

section \<open>The pipeline state store of playlet\<close>

text \<open>
  A shallow embedding of the class \<open>MetadataCache\<close> (the pipeline state store) and of
  \<open>UploadService\<close>. Each method is a HOL function of the same name; what a method
  does beyond returning a value is explicit: a raised exception is the left summand of
  the result, the table behind the DynamoDB client is passed in and returned, and each
  reading of the clock (\<open>new Date().toISOString()\<close>) is an argument. A string is
  the list of its characters, with codes below 256. A timestamp is its ISO string; the
  order on timestamps is the lexicographic order of the strings, which is the order in
  time for the fixed-width strings \<open>toISOString\<close> returns.
\<close>

subsection \<open>JavaScript values\<close>

text \<open>
  The values the encoder can meet in \<open>data: any\<close> when the data comes from a parsed
  request body, and \<open>undefined\<close>. Numbers are kept abstract (type \<open>'n\<close>);
  \<open>Number.prototype.toString\<close> is the parameter \<open>toStr\<close> of the functions below.
  An object is the list of its own enumerable properties in the order
  \<open>Object.entries\<close> lists them; the keys of a JavaScript object are pairwise distinct
  (predicate \<open>wellformed\<close>).
\<close>

datatype 'n jsval =
    JNull
  | JUndefined
  | JBool bool
  | JNum 'n
  | JStr string
  | JArr "'n jsval list"
  | JObj "(string \<times> 'n jsval) list"

fun wellformed :: "'n jsval \<Rightarrow> bool" where
  "wellformed (JObj kvs) = (distinct (map fst kvs) \<and> list_all (\<lambda>p. wellformed (snd p)) kvs)"
| "wellformed (JArr xs) = list_all wellformed xs"
| "wellformed _ = True"

text \<open>The exceptions a method of the two classes can end with.\<close>

datatype error =
    TypeError
  | ConditionalCheckFailedException
  | ValidationException

text \<open>
  The canonical decimal numeral of an array index, as \<open>Object.entries\<close> names the
  elements of an array (\<open>"0"\<close>, \<open>"1"\<close>, ...).
\<close>

fun decimal :: "nat \<Rightarrow> string" where
  "decimal n =
     (if n < 10 then [''0123456789'' ! n]
      else decimal (n div 10) @ [''0123456789'' ! (n mod 10)])"

declare decimal.simps [simp del]

definition indexed :: "'a list \<Rightarrow> (string \<times> 'a) list" where
  "indexed xs = zip (map decimal [0..<length xs]) xs"

text \<open>
  \<open>Object.entries(data)\<close>: \<open>null\<close> and \<open>undefined\<close> cannot be converted to an
  object (a TypeError); a boolean and a number are boxed and have no own enumerable
  property; a string has one property per character and an array one per element, both
  keyed by the index; an object has its own properties.
\<close>

fun Object_entries :: "'n jsval \<Rightarrow> error + (string \<times> 'n jsval) list" where
  "Object_entries JNull = Inl TypeError"
| "Object_entries JUndefined = Inl TypeError"
| "Object_entries (JBool b) = Inr []"
| "Object_entries (JNum n) = Inr []"
| "Object_entries (JStr s) = Inr (indexed (map (\<lambda>c. JStr [c]) s))"
| "Object_entries (JArr xs) = Inr (indexed xs)"
| "Object_entries (JObj kvs) = Inr kvs"

text \<open>
  The assignment \<open>obj[key] = v\<close> on an object created by \<open>{}\<close>, kept as the list
  of its own properties: an existing property keeps its place and takes the new value, a
  new one is added last. The name \<open>__proto__\<close> is the exception: the assignment runs
  the setter the object inherits from \<open>Object.prototype\<close>, which replaces the
  prototype of the object when \<open>v\<close> is an object and does nothing otherwise; either
  way the own properties stay as they are. The prototype of an object is not part of the
  model.
\<close>

definition set_prop :: "(string \<times> 'v) list \<Rightarrow> string \<Rightarrow> 'v \<Rightarrow> (string \<times> 'v) list" where
  "set_prop obj key v = (if key = ''__proto__'' then obj else AList.update key v obj)"

subsection \<open>The attribute encoder\<close>

text \<open>
  The tagged values of the backing store (\<open>AttributeValue\<close>). The encoder produces the
  tags \<open>S\<close>, \<open>N\<close>, \<open>BOOL\<close>, \<open>NULL\<close> and \<open>M\<close>; the list tag \<open>L\<close> is the tag the store
  has for lists.
\<close>

datatype attr =
    S string
  | N string
  | BOOL bool
  | NULL bool
  | L "attr list"
  | M "(string \<times> attr) list"

text \<open>
  \<open>convertToMapAttribute\<close> with the loop \<open>Object.entries(data).forEach(...)\<close> as the
  function \<open>forEach\<close>, whose last argument is the object \<open>result\<close> built so far. The
  branches are those of the callback, in its order: the test for \<open>null\<close>,
  \<open>undefined\<close> and \<open>'N/A'\<close> first, then \<open>typeof value\<close> equal to \<open>'boolean'\<close>,
  \<open>'number'\<close>, \<open>'object'\<close> (arrays and objects; \<open>null\<close> was taken by the first
  test), and last the string, whose \<open>toString()\<close> is the string itself.
\<close>

function convertToMapAttribute ::
    "('n \<Rightarrow> string) \<Rightarrow> 'n jsval \<Rightarrow> error + (string \<times> attr) list"
  and forEach ::
    "('n \<Rightarrow> string) \<Rightarrow> (string \<times> 'n jsval) list \<Rightarrow> (string \<times> attr) list
      \<Rightarrow> error + (string \<times> attr) list"
where
  "convertToMapAttribute toStr data =
     (case Object_entries data of
        Inl e \<Rightarrow> Inl e
      | Inr entries \<Rightarrow> forEach toStr entries [])"
| "forEach toStr [] result = Inr result"
| "forEach toStr ((key, value) # rest) result =
     (case value of
        JNull \<Rightarrow> forEach toStr rest (set_prop result key (NULL True))
      | JUndefined \<Rightarrow> forEach toStr rest (set_prop result key (NULL True))
      | JBool b \<Rightarrow> forEach toStr rest (set_prop result key (BOOL b))
      | JNum n \<Rightarrow> forEach toStr rest (set_prop result key (N (toStr n)))
      | JStr s \<Rightarrow>
          (if s = ''N/A'' then forEach toStr rest (set_prop result key (NULL True))
           else forEach toStr rest (set_prop result key (S s)))
      | JArr xs \<Rightarrow>
          (case convertToMapAttribute toStr value of
             Inl e \<Rightarrow> Inl e
           | Inr m \<Rightarrow> forEach toStr rest (set_prop result key (M m)))
      | JObj kvs \<Rightarrow>
          (case convertToMapAttribute toStr value of
             Inl e \<Rightarrow> Inl e
           | Inr m \<Rightarrow> forEach toStr rest (set_prop result key (M m))))"
  by pat_completeness auto

lemma map_snd_indexed: "map snd (indexed xs) = xs"
  by (simp add: indexed_def)

lemma size_list_indexed: "size_list (\<lambda>p. f (snd p)) (indexed xs) = size_list f xs"
proof -
  have "size_list (\<lambda>p. f (snd p)) (indexed xs) = size_list f (map snd (indexed xs))"
    by (simp add: comp_def)
  then show ?thesis by (simp add: map_snd_indexed)
qed

lemma size_entries_string:
  "size_list (\<lambda>p. size (snd p)) (indexed (map (\<lambda>c. JStr [c]) s)) = 2 * length s"
proof -
  have "size_list size (map (\<lambda>c. JStr [c]) s :: 'a jsval list) = 2 * length s"
    by (induction s) simp_all
  then show ?thesis by (simp only: size_list_indexed)
qed

lemma size_entries_object:
  "size_list (\<lambda>p. size (snd p)) kvs \<le> size_list (size_prod (\<lambda>x. 0) size) kvs"
  by (induction kvs) auto

text \<open>
  The encoder terminates: a recursive call is on a property value, which is smaller than
  the object or array that holds it; the entries of a string are strings and are not
  entered.
\<close>

termination convertToMapAttribute
proof (relation "measure (\<lambda>x. case x of
            Inl (toStr, data) \<Rightarrow> (case data of JStr s \<Rightarrow> 2 * length s + 1 | _ \<Rightarrow> size data)
          | Inr (toStr, entries, result) \<Rightarrow> size_list (\<lambda>p. size (snd p)) entries)", goal_cases)
  case 1
  then show ?case by simp
next
  case (2 toStr data entries)
  show ?case
  proof (cases data)
    case (JStr s)
    with 2 show ?thesis by (auto simp: size_entries_string)
  next
    case (JArr xs)
    with 2 show ?thesis by (auto simp: size_list_indexed)
  next
    case (JObj kvs)
    with 2 show ?thesis using size_entries_object [of kvs] by auto
  qed (use 2 in auto)
qed simp_all

text \<open>
  What the encoder returns, in closed form, for comparison with the loop: the tagged
  value of a field by the rules of the callback, an array as the map of its elements
  keyed by index, an object as the map of its fields. A field named \<open>__proto__\<close> is
  not among them, since the loop stores it with \<open>set_prop\<close>.
\<close>

fun encoded_value :: "('n \<Rightarrow> string) \<Rightarrow> 'n jsval \<Rightarrow> attr" where
  "encoded_value toStr JNull = NULL True"
| "encoded_value toStr JUndefined = NULL True"
| "encoded_value toStr (JBool b) = BOOL b"
| "encoded_value toStr (JNum n) = N (toStr n)"
| "encoded_value toStr (JStr s) = (if s = ''N/A'' then NULL True else S s)"
| "encoded_value toStr (JArr xs) = M (indexed (map (encoded_value toStr) xs))"
| "encoded_value toStr (JObj kvs) =
     M (filter (\<lambda>p. fst p \<noteq> ''__proto__'')
          (map (\<lambda>p. (fst p, encoded_value toStr (snd p))) kvs))"

abbreviation encode_entries ::
    "('n \<Rightarrow> string) \<Rightarrow> (string \<times> 'n jsval) list \<Rightarrow> (string \<times> attr) list" where
  "encode_entries toStr entries \<equiv>
     filter (\<lambda>p. fst p \<noteq> ''__proto__'')
       (map (\<lambda>p. (fst p, encoded_value toStr (snd p))) entries)"

subsection \<open>The backing store\<close>

text \<open>
  The DynamoDB table behind \<open>this.dbclient\<close>, with the two kinds of request the class
  sends. The table's key is the pair of the attributes \<open>userId\<close> and \<open>assetId\<close>. The
  table name and the region, fixed by the constructor, select the table; the model has
  that one table. An expression is kept as its syntax tree: the update expression
  \<open>SET progress.#stage = :value, progress.updatedAt = :time\<close> is the list of its two
  \<open>SET\<close> actions, each a document path (attribute names and \<open>#\<close> placeholders) and
  the \<open>:\<close> placeholder of its value.
\<close>

type_synonym item = "(string \<times> attr) list"

datatype name_token = Name string | Placeholder string

datatype action = SET "name_token list" string

datatype condition = attribute_not_exists string | AND condition condition

record PutItemCommand =
  Item :: item
  ConditionExpression :: condition

record UpdateCommandParams =
  UpdateExpression :: "action list"
  ExpressionAttributeNames :: "(string \<times> string) list"
  ExpressionAttributeValues :: "(string \<times> attr) list"

record UpdateItemCommand = UpdateCommandParams +
  Key :: item

datatype command = PutItem PutItemCommand | UpdateItem UpdateItemCommand

text \<open>The field \<open>$metadata.httpStatusCode\<close> of a response.\<close>

record response =
  httpStatusCode :: nat

text \<open>
  The state of the store: the items of the table by key, and the requests it has
  received, oldest first.
\<close>

record dynamodb =
  items :: "((string \<times> string) \<times> item) list"
  requests :: "command list"

definition key_of :: "item \<Rightarrow> (string \<times> string) option" where
  "key_of it =
     (case (map_of it ''userId'', map_of it ''assetId'') of
        (Some (S u), Some (S a)) \<Rightarrow> Some (u, a)
      | _ \<Rightarrow> None)"

text \<open>
  A condition is evaluated on the item stored under the key of the request, if there is
  one.
\<close>

fun holds :: "condition \<Rightarrow> item option \<Rightarrow> bool" where
  "holds (attribute_not_exists a) existing =
     (case existing of None \<Rightarrow> True | Some it \<Rightarrow> map_of it a = None)"
| "holds (AND c d) existing = (holds c existing \<and> holds d existing)"

text \<open>
  Reading and writing a document path. \<open>SET a.b.c = v\<close> writes the attribute \<open>c\<close> of
  the map at \<open>a.b\<close>, adding \<open>c\<close> when the map has none; the path is invalid for
  update when \<open>a\<close> or \<open>a.b\<close> is missing or is not a map.
\<close>

fun get_path :: "string list \<Rightarrow> item \<Rightarrow> attr option" where
  "get_path [] it = None"
| "get_path [a] it = map_of it a"
| "get_path (a # b # rest) it =
     (case map_of it a of Some (M sub) \<Rightarrow> get_path (b # rest) sub | _ \<Rightarrow> None)"

fun set_path :: "string list \<Rightarrow> attr \<Rightarrow> item \<Rightarrow> item option" where
  "set_path [] v it = None"
| "set_path [a] v it = Some (AList.update a v it)"
| "set_path (a # b # rest) v it =
     (case map_of it a of
        Some (M sub) \<Rightarrow>
          (case set_path (b # rest) v sub of
             None \<Rightarrow> None
           | Some sub' \<Rightarrow> Some (AList.update a (M sub') it))
      | _ \<Rightarrow> None)"

fun resolve_name :: "(string \<times> string) list \<Rightarrow> name_token \<Rightarrow> string option" where
  "resolve_name names (Name a) = Some a"
| "resolve_name names (Placeholder p) = map_of names p"

fun resolve_action ::
    "(string \<times> string) list \<Rightarrow> (string \<times> attr) list \<Rightarrow> action
      \<Rightarrow> (string list \<times> attr) option" where
  "resolve_action names vals (SET path placeholder) =
     (case (those (map (resolve_name names) path), map_of vals placeholder) of
        (Some p, Some v) \<Rightarrow> Some (p, v)
      | _ \<Rightarrow> None)"

text \<open>
  Two document paths of one update expression overlap when one is a prefix of the
  other; the store rejects such an expression.
\<close>

fun is_prefix :: "'a list \<Rightarrow> 'a list \<Rightarrow> bool" where
  "is_prefix [] ys = True"
| "is_prefix (x # xs) [] = False"
| "is_prefix (x # xs) (y # ys) = (x = y \<and> is_prefix xs ys)"

definition overlap :: "'a list \<Rightarrow> 'a list \<Rightarrow> bool" where
  "overlap p q = (is_prefix p q \<or> is_prefix q p)"

fun overlapping :: "'a list list \<Rightarrow> bool" where
  "overlapping [] = False"
| "overlapping (p # ps) = (list_ex (overlap p) ps \<or> overlapping ps)"

fun apply_actions :: "(string list \<times> attr) list \<Rightarrow> item \<Rightarrow> item option" where
  "apply_actions [] it = Some it"
| "apply_actions ((p, v) # rest) it =
     (case set_path p v it of None \<Rightarrow> None | Some it' \<Rightarrow> apply_actions rest it')"

definition update_item :: "UpdateItemCommand \<Rightarrow> item \<Rightarrow> item option" where
  "update_item c it =
     (case those (map (resolve_action (ExpressionAttributeNames c) (ExpressionAttributeValues c))
                   (UpdateExpression c)) of
        None \<Rightarrow> None
      | Some actions \<Rightarrow>
          if overlapping (map fst actions) then None else apply_actions actions it)"

text \<open>
  \<open>this.dbclient.send(command)\<close>. The client of the AWS SDK for JavaScript v3 resolves
  with the response of a request the service accepts (status 200) and rejects with the
  service's exception for one it refuses: \<open>ConditionalCheckFailedException\<close> when the
  condition of a put does not hold, \<open>ValidationException\<close> when an update expression
  is invalid for the item. A refused request changes no item. An update of a key with
  no item starts from the item that has the key attributes alone. Capacity, size limits
  and transport faults are outside the model.
\<close>

definition send :: "command \<Rightarrow> dynamodb \<Rightarrow> (error + response) \<times> dynamodb" where
  "send command db =
     (let db = db\<lparr>requests := requests db @ [command]\<rparr> in
      case command of
        PutItem c \<Rightarrow>
          (case key_of (Item c) of
             None \<Rightarrow> (Inl ValidationException, db)
           | Some k \<Rightarrow>
               if holds (ConditionExpression c) (map_of (items db) k)
               then (Inr \<lparr>httpStatusCode = 200\<rparr>,
                     db\<lparr>items := AList.update k (Item c) (items db)\<rparr>)
               else (Inl ConditionalCheckFailedException, db))
      | UpdateItem c \<Rightarrow>
          (case key_of (Key c) of
             None \<Rightarrow> (Inl ValidationException, db)
           | Some k \<Rightarrow>
               (case update_item c
                       (case map_of (items db) k of None \<Rightarrow> Key c | Some it \<Rightarrow> it) of
                  None \<Rightarrow> (Inl ValidationException, db)
                | Some it' \<Rightarrow>
                    (Inr \<lparr>httpStatusCode = 200\<rparr>,
                     db\<lparr>items := AList.update k it' (items db)\<rparr>))))"

text \<open>What is stored at a document path of the record of a key.\<close>

definition read :: "dynamodb \<Rightarrow> string \<times> string \<Rightarrow> string list \<Rightarrow> attr option" where
  "read db k p = (case map_of (items db) k of None \<Rightarrow> None | Some it \<Rightarrow> get_path p it)"

fun is_map :: "attr option \<Rightarrow> bool" where
  "is_map (Some (M m)) = True"
| "is_map _ = False"

text \<open>
  A record has the shape \<open>InitializeRecord\<close> gives it when \<open>metadata\<close>,
  \<open>metadata.validation\<close> and \<open>progress\<close> are maps.
\<close>

definition initialized :: "dynamodb \<Rightarrow> string \<times> string \<Rightarrow> bool" where
  "initialized db k =
     (is_map (read db k [''metadata'']) \<and> is_map (read db k [''metadata'', ''validation''])
      \<and> is_map (read db k [''progress'']))"

definition updatedAt :: "dynamodb \<Rightarrow> string \<times> string \<Rightarrow> string option" where
  "updatedAt db k =
     (case read db k [''progress'', ''updatedAt''] of Some (S t) \<Rightarrow> Some t | _ \<Rightarrow> None)"

subsection \<open>The operations of \<open>MetadataCache\<close>\<close>

text \<open>The enums \<open>MetadataPath\<close> and \<open>ProcessingStage\<close>: at run time, strings.\<close>

definition VALIDATION_BASIC :: string where "VALIDATION_BASIC = ''validation.basic''"

definition VALIDATION_STREAM :: string where "VALIDATION_STREAM = ''validation.stream''"

definition METADATA_TECHNICAL :: string where "METADATA_TECHNICAL = ''metadata.technical''"

definition METADATA_QUALITY :: string where "METADATA_QUALITY = ''metadata.quality''"

definition METADATA_CONTENT :: string where "METADATA_CONTENT = ''metadata.content''"

definition MetadataPath :: "string list" where
  "MetadataPath =
     [VALIDATION_BASIC, VALIDATION_STREAM, METADATA_TECHNICAL, METADATA_QUALITY,
      METADATA_CONTENT]"

definition UPLOAD :: string where "UPLOAD = ''upload''"

definition VALIDATION :: string where "VALIDATION = ''validation''"

definition METADATA :: string where "METADATA = ''metadata''"

definition GOP_CREATION :: string where "GOP_CREATION = ''gopCreation''"

definition TRANSCODING :: string where "TRANSCODING = ''transcoding''"

definition COMPLETION :: string where "COMPLETION = ''completion''"

definition DISTRIBUTION :: string where "DISTRIBUTION = ''distribution''"

definition ProcessingStage :: "string list" where
  "ProcessingStage =
     [UPLOAD, VALIDATION, METADATA, GOP_CREATION, TRANSCODING, COMPLETION, DISTRIBUTION]"

text \<open>
  \<open>InitializeRecord\<close>; \<open>now\<close> and \<open>now'\<close> are its two readings of the clock, for
  \<open>createdAt\<close> and for \<open>progress.updatedAt\<close>. As in the three operations below, what
  \<open>send\<close> throws is not caught, and a response gives the boolean
  \<open>httpStatusCode === 200\<close>.
\<close>

definition InitializeRecord ::
    "string \<Rightarrow> string \<Rightarrow> string \<Rightarrow> string \<Rightarrow> dynamodb \<Rightarrow> (error + bool) \<times> dynamodb" where
  "InitializeRecord userId assetId now now' db =
     (let command = PutItem \<lparr>
        Item =
          [(''userId'', S userId),
           (''assetId'', S assetId),
           (''createdAt'', S now),
           (''metadata'', M
              [(''validation'', M [(''basic'', M []), (''stream'', M [])]),
               (''technical'', M []),
               (''quality'', M []),
               (''content'', M [])]),
           (''progress'', M
              [(''upload'', BOOL False),
               (''validation'', BOOL False),
               (''metadata'', BOOL False),
               (''gopCreation'', BOOL False),
               (''transcoding'', BOOL False),
               (''completion'', BOOL False),
               (''distribution'', BOOL False),
               (''updatedAt'', S now'),
               (''hasCriticalFailure'', BOOL False)])],
        ConditionExpression =
          AND (attribute_not_exists ''userId'') (attribute_not_exists ''assetId'')\<rparr>
      in case send command db of
           (Inl e, db') \<Rightarrow> (Inl e, db')
         | (Inr response, db') \<Rightarrow> (Inr (httpStatusCode response = 200), db'))"

definition UPDATE_PATHS :: "(string \<times> string list) list" where
  "UPDATE_PATHS =
     [(VALIDATION_BASIC, [''metadata'', ''validation'', ''basic'']),
      (VALIDATION_STREAM, [''metadata'', ''validation'', ''stream'']),
      (METADATA_TECHNICAL, [''metadata'', ''technical'']),
      (METADATA_QUALITY, [''metadata'', ''quality'']),
      (METADATA_CONTENT, [''metadata'', ''content''])]"

text \<open>
  \<open>createUpdateCommand\<close>. For a \<open>path\<close> that is no key of \<open>UPDATE_PATHS\<close> the
  lookup gives \<open>undefined\<close> (or, for a name inherited from \<open>Object.prototype\<close>, a
  value with no \<open>reduce\<close>), and the call \<open>pathParts.reduce(...)\<close> throws a TypeError.
  The spread \<open>{...acc, [`#${part}`]: part}\<close> copies \<open>acc\<close> and defines the property
  \<open>#part\<close>; its name starts with \<open>#\<close>, so this is what \<open>set_prop\<close> does.
\<close>

definition createUpdateCommand ::
    "('n \<Rightarrow> string) \<Rightarrow> string \<Rightarrow> 'n jsval \<Rightarrow> error + UpdateCommandParams" where
  "createUpdateCommand toStr path data =
     (case map_of UPDATE_PATHS path of
        None \<Rightarrow> Inl TypeError
      | Some pathParts \<Rightarrow>
          (let attributeNames =
                 foldl (\<lambda>acc part. set_prop acc (CHR ''#'' # part) part) [] pathParts
           in case convertToMapAttribute toStr data of
                Inl e \<Rightarrow> Inl e
              | Inr m \<Rightarrow> Inr \<lparr>
                  UpdateExpression =
                    [SET (map (\<lambda>p. Placeholder (CHR ''#'' # p)) pathParts) '':data''],
                  ExpressionAttributeNames = attributeNames,
                  ExpressionAttributeValues = [('':data'', M m)]\<rparr>))"

definition updateMetadata ::
    "('n \<Rightarrow> string) \<Rightarrow> string \<Rightarrow> string \<Rightarrow> string \<Rightarrow> 'n jsval \<Rightarrow> dynamodb
      \<Rightarrow> (error + bool) \<times> dynamodb" where
  "updateMetadata toStr userId assetId path data db =
     (case createUpdateCommand toStr path data of
        Inl e \<Rightarrow> (Inl e, db)
      | Inr params \<Rightarrow>
          (let command = UpdateItem \<lparr>
             UpdateExpression = UpdateExpression params,
             ExpressionAttributeNames = ExpressionAttributeNames params,
             ExpressionAttributeValues = ExpressionAttributeValues params,
             Key = [(''userId'', S userId), (''assetId'', S assetId)]\<rparr>
           in case send command db of
                (Inl e, db') \<Rightarrow> (Inl e, db')
              | (Inr response, db') \<Rightarrow> (Inr (httpStatusCode response = 200), db')))"

definition updateProgress ::
    "string \<Rightarrow> string \<Rightarrow> string \<Rightarrow> bool \<Rightarrow> string \<Rightarrow> dynamodb
      \<Rightarrow> (error + bool) \<times> dynamodb" where
  "updateProgress userId assetId stage value now db =
     (let command = UpdateItem \<lparr>
        UpdateExpression =
          [SET [Name ''progress'', Placeholder ''#stage''] '':value'',
           SET [Name ''progress'', Name ''updatedAt''] '':time''],
        ExpressionAttributeNames = [(''#stage'', stage)],
        ExpressionAttributeValues = [('':value'', BOOL value), ('':time'', S now)],
        Key = [(''userId'', S userId), (''assetId'', S assetId)]\<rparr>
      in case send command db of
           (Inl e, db') \<Rightarrow> (Inl e, db')
         | (Inr response, db') \<Rightarrow> (Inr (httpStatusCode response = 200), db'))"

definition markCriticalFailure ::
    "string \<Rightarrow> string \<Rightarrow> bool \<Rightarrow> string \<Rightarrow> dynamodb \<Rightarrow> (error + bool) \<times> dynamodb" where
  "markCriticalFailure userId assetId value now db =
     (let command = UpdateItem \<lparr>
        UpdateExpression =
          [SET [Name ''progress'', Name ''hasCriticalFailure''] '':value'',
           SET [Name ''progress'', Name ''updatedAt''] '':time''],
        ExpressionAttributeNames = [],
        ExpressionAttributeValues = [('':value'', BOOL value), ('':time'', S now)],
        Key = [(''userId'', S userId), (''assetId'', S assetId)]\<rparr>
      in case send command db of
           (Inl e, db') \<Rightarrow> (Inl e, db')
         | (Inr response, db') \<Rightarrow> (Inr (httpStatusCode response = 200), db'))"

subsection \<open>Sequences of operations\<close>

text \<open>
  A call of one of the four operations, with its clock readings; \<open>clock\<close> gives the
  reading the call writes to \<open>progress.updatedAt\<close>. A sequence of calls is run in the
  order the store applies them, each on the store the one before left, whether that one
  returned or threw.
\<close>

datatype 'n operation =
    Initialize string string string string
  | UpdateMetadata string string string "'n jsval"
  | UpdateProgress string string string bool string
  | MarkCriticalFailure string string bool string

fun perform :: "('n \<Rightarrow> string) \<Rightarrow> 'n operation \<Rightarrow> dynamodb \<Rightarrow> (error + bool) \<times> dynamodb" where
  "perform toStr (Initialize userId assetId now now') db = InitializeRecord userId assetId now now' db"
| "perform toStr (UpdateMetadata userId assetId path data) db =
     updateMetadata toStr userId assetId path data db"
| "perform toStr (UpdateProgress userId assetId stage v now) db =
     updateProgress userId assetId stage v now db"
| "perform toStr (MarkCriticalFailure userId assetId v now) db =
     markCriticalFailure userId assetId v now db"

fun clock :: "'n operation \<Rightarrow> string list" where
  "clock (Initialize userId assetId now now') = [now']"
| "clock (UpdateMetadata userId assetId path data) = []"
| "clock (UpdateProgress userId assetId stage v now) = [now]"
| "clock (MarkCriticalFailure userId assetId v now) = [now]"

fun run :: "('n \<Rightarrow> string) \<Rightarrow> 'n operation list \<Rightarrow> dynamodb \<Rightarrow> dynamodb" where
  "run toStr [] db = db"
| "run toStr (op # ops) db = run toStr ops (snd (perform toStr op db))"

subsection \<open>The upload service\<close>

text \<open>
  A JavaScript number that \<open>parseInt\<close> returns: \<open>NaN\<close>, or the number of an
  integer (the integer itself up to \<open>2^53\<close>, the nearest double beyond; \<open>-0\<close> is
  \<open>Number 0\<close>).
\<close>

datatype number = NaN | Number int

text \<open>
  The white space and line terminators that \<open>parseInt\<close> skips, among the characters
  with codes below 256: TAB, LF, VT, FF, CR, space and the no-break space.
\<close>

definition is_whitespace :: "char \<Rightarrow> bool" where
  "is_whitespace c = (of_char c \<in> {9, 10, 11, 12, 13, 32, 160 :: nat})"

text \<open>
  The value of a character as a digit (\<open>0\<close> to \<open>9\<close>, then the letters for 10 to 35
  in either case); 36 for a character that is no digit of any radix.
\<close>

definition digit_value :: "char \<Rightarrow> nat" where
  "digit_value c =
     (let n = of_char c :: nat in
      if 48 \<le> n \<and> n \<le> 57 then n - 48
      else if 97 \<le> n \<and> n \<le> 122 then n - 87
      else if 65 \<le> n \<and> n \<le> 90 then n - 55
      else 36)"

text \<open>
  \<open>parseInt(string, radix)\<close>, step by step as ECMA-262 defines it: trim the leading
  white space, take the sign, check the radix, strip a \<open>0x\<close> prefix when the radix
  allows it, keep the longest prefix of digits of the radix, and return \<open>NaN\<close> when it
  is empty and the signed value otherwise.
\<close>

definition parseInt :: "string \<Rightarrow> nat \<Rightarrow> number" where
  "parseInt string radix =
     (let str = dropWhile is_whitespace string;
          sign = (if str \<noteq> [] \<and> hd str = CHR ''-'' then - 1 else 1 :: int);
          str = (if str \<noteq> [] \<and> (hd str = CHR ''+'' \<or> hd str = CHR ''-'') then tl str else str)
      in if radix \<noteq> 0 \<and> (radix < 2 \<or> 36 < radix) then NaN
         else
           let stripPrefix = (radix = 0 \<or> radix = 16);
               R = (if radix = 0 then 10 else radix);
               prefixed = (stripPrefix \<and> (take 2 str = ''0x'' \<or> take 2 str = ''0X''));
               str = (if prefixed then drop 2 str else str);
               R = (if prefixed then 16 else R);
               Z = takeWhile (\<lambda>c. digit_value c < R) str
           in if Z = [] then NaN
              else Number (sign * int (foldl (\<lambda>mathInt c. mathInt * R + digit_value c) 0 Z)))"

text \<open>
  The fields of the class the two methods use (the S3 client is built from the region and
  is not modelled), and its constructor.
\<close>

record UploadService =
  region :: string
  bucket :: string
  uploadSizeLimit :: number
  uploadTimeLimit :: number

definition UploadService_constructor ::
    "string \<Rightarrow> string \<Rightarrow> string \<Rightarrow> string \<Rightarrow> UploadService" where
  "UploadService_constructor bucket' region' uploadSizeLimit' uploadTimeLimit' = \<lparr>
     region = region',
     bucket = bucket',
     uploadSizeLimit = parseInt uploadSizeLimit' 2,
     uploadTimeLimit = parseInt uploadTimeLimit' 2\<rparr>"

text \<open>
  \<open>generatePreSignedPost\<close>. The key is what \<open>generateKey\<close> returned (it depends
  on the time and on a random UUID) and \<open>createPresignedPost\<close> is the function of the
  SDK, both parameters; the result is the options the method passes to
  \<open>createPresignedPost\<close>, and what it returns.
\<close>

datatype post_condition = content_length_range number number

record PresignedPostOptions =
  Bucket :: string
  Key' :: string
  Conditions :: "post_condition list"
  Expires :: number

record UploadServiceResponse =
  url :: string
  key :: string

definition generatePreSignedPost ::
    "(PresignedPostOptions \<Rightarrow> string) \<Rightarrow> UploadService \<Rightarrow> string
      \<Rightarrow> PresignedPostOptions \<times> UploadServiceResponse" where
  "generatePreSignedPost createPresignedPost this generatedKey =
     (let options = \<lparr>
            Bucket = bucket this,
            Key' = generatedKey,
            Conditions = [content_length_range (Number 1) (uploadSizeLimit this)],
            Expires = uploadTimeLimit this\<rparr>
      in (options, \<lparr>url = createPresignedPost options, key = generatedKey\<rparr>))"

subsection \<open>Terms of the statements\<close>

text \<open>
  Names for the terms the statements below speak of: the commands the operations send
  and their resolved actions, a store holding one record, the inverse of \<open>decimal\<close>,
  and the base-2 value of a run of binary digits.
\<close>

definition undecimal :: "string \<Rightarrow> nat" where
  "undecimal s = foldl (\<lambda>acc c. 10 * acc + (of_char c - 48)) 0 s"

abbreviation key_item :: "string \<Rightarrow> string \<Rightarrow> item" where
  "key_item userId assetId \<equiv> [(''userId'', S userId), (''assetId'', S assetId)]"

abbreviation initial_item :: "string \<Rightarrow> string \<Rightarrow> string \<Rightarrow> string \<Rightarrow> item" where
  "initial_item userId assetId now now' \<equiv>
          [(''userId'', S userId),
           (''assetId'', S assetId),
           (''createdAt'', S now),
           (''metadata'', M
              [(''validation'', M [(''basic'', M []), (''stream'', M [])]),
               (''technical'', M []),
               (''quality'', M []),
               (''content'', M [])]),
           (''progress'', M
              [(''upload'', BOOL False),
               (''validation'', BOOL False),
               (''metadata'', BOOL False),
               (''gopCreation'', BOOL False),
               (''transcoding'', BOOL False),
               (''completion'', BOOL False),
               (''distribution'', BOOL False),
               (''updatedAt'', S now'),
               (''hasCriticalFailure'', BOOL False)])]"

abbreviation initial_command :: "string \<Rightarrow> string \<Rightarrow> string \<Rightarrow> string \<Rightarrow> command" where
  "initial_command userId assetId now now' \<equiv> PutItem \<lparr>
        Item = initial_item userId assetId now now',
        ConditionExpression =
          AND (attribute_not_exists ''userId'') (attribute_not_exists ''assetId'')\<rparr>"

definition example_store :: dynamodb where
  "example_store =
     snd (InitializeRecord ''u1'' ''a1'' ''2024-05-01T10:00:00.000Z'' ''2024-05-01T10:00:00.000Z''
            \<lparr>items = [], requests = []\<rparr>)"

text \<open>The two \<open>SET\<close> actions of \<open>updateProgress\<close>, resolved.\<close>

definition progress_actions :: "string \<Rightarrow> bool \<Rightarrow> string \<Rightarrow> (string list \<times> attr) list" where
  "progress_actions stage v now =
     [([''progress'', stage], BOOL v), ([''progress'', ''updatedAt''], S now)]"

abbreviation progress_command :: "string \<Rightarrow> string \<Rightarrow> string \<Rightarrow> bool \<Rightarrow> string \<Rightarrow> UpdateItemCommand" where
  "progress_command userId assetId stage v now \<equiv> \<lparr>
        UpdateExpression =
          [SET [Name ''progress'', Placeholder ''#stage''] '':value'',
           SET [Name ''progress'', Name ''updatedAt''] '':time''],
        ExpressionAttributeNames = [(''#stage'', stage)],
        ExpressionAttributeValues = [('':value'', BOOL v), ('':time'', S now)],
        Key = [(''userId'', S userId), (''assetId'', S assetId)]\<rparr>"

definition failure_actions :: "bool \<Rightarrow> string \<Rightarrow> (string list \<times> attr) list" where
  "failure_actions v now =
     [([''progress'', ''hasCriticalFailure''], BOOL v), ([''progress'', ''updatedAt''], S now)]"

abbreviation failure_command :: "string \<Rightarrow> string \<Rightarrow> bool \<Rightarrow> string \<Rightarrow> UpdateItemCommand" where
  "failure_command userId assetId v now \<equiv> \<lparr>
        UpdateExpression =
          [SET [Name ''progress'', Name ''hasCriticalFailure''] '':value'',
           SET [Name ''progress'', Name ''updatedAt''] '':time''],
        ExpressionAttributeNames = [],
        ExpressionAttributeValues = [('':value'', BOOL v), ('':time'', S now)],
        Key = [(''userId'', S userId), (''assetId'', S assetId)]\<rparr>"

abbreviation attribute_names :: "string list \<Rightarrow> (string \<times> string) list" where
  "attribute_names pathParts \<equiv>
     foldl (\<lambda>acc part. set_prop acc (CHR ''#'' # part) part) [] pathParts"

abbreviation metadata_command ::
    "string \<Rightarrow> string \<Rightarrow> string list \<Rightarrow> (string \<times> attr) list \<Rightarrow> UpdateItemCommand" where
  "metadata_command userId assetId pathParts m \<equiv> \<lparr>
        UpdateExpression = [SET (map (\<lambda>p. Placeholder (CHR ''#'' # p)) pathParts) '':data''],
        ExpressionAttributeNames = attribute_names pathParts,
        ExpressionAttributeValues = [('':data'', M m)],
        Key = [(''userId'', S userId), (''assetId'', S assetId)]\<rparr>"

definition binary_digit :: "char \<Rightarrow> bool" where
  "binary_digit c = (c = CHR ''0'' \<or> c = CHR ''1'')"

definition binary_value :: "string \<Rightarrow> int" where
  "binary_value ds =
     (\<Sum>i<length ds. (if ds ! i = CHR ''1'' then 1 else 0) * 2 ^ (length ds - 1 - i))"

text \<open>The strings, cut where \<open>parseInt\<close> cuts them.\<close>

definition cut :: "string \<Rightarrow> string \<Rightarrow> string \<Rightarrow> string \<Rightarrow> bool" where
  "cut ws sign ds rest =
     (list_all is_whitespace ws \<and> (sign = [] \<or> sign = ''+'' \<or> sign = ''-'')
      \<and> list_all binary_digit ds
      \<and> (rest = [] \<or> \<not> binary_digit (hd rest)
            \<and> (sign = [] \<and> ds = [] \<longrightarrow>
                  \<not> is_whitespace (hd rest) \<and> hd rest \<noteq> CHR ''+'' \<and> hd rest \<noteq> CHR ''-'')))"

section \<open>The attribute encoder: what it computes\<close>

subsection \<open>Index keys\<close>

lemma digit_code: "d < 10 \<Longrightarrow> of_char (''0123456789'' ! d) = (48::nat) + d"
proof -
  assume "d < 10"
  then have "d \<in> {0, 1, 2, 3, 4, 5, 6, 7, 8, 9}" by auto
  then show ?thesis by auto
qed

lemma undecimal_decimal: "undecimal (decimal n) = n"
proof (induction n rule: decimal.induct)
  case (1 n)
  show ?case
  proof (cases "n < 10")
    case True
    then show ?thesis by (subst decimal.simps) (simp add: undecimal_def digit_code)
  next
    case False
    with 1 have "undecimal (decimal (n div 10)) = n div 10" by simp
    then show ?thesis using False
      by (subst decimal.simps) (simp add: undecimal_def digit_code)
  qed
qed

lemma inj_decimal: "inj decimal"
  by (rule inj_on_inverseI [where g = undecimal]) (rule undecimal_decimal)

lemma distinct_keys_indexed: "distinct (map fst (indexed xs))"
  by (simp add: indexed_def distinct_map inj_decimal [THEN inj_on_subset])

lemma snd_in_indexed: "(k, x) \<in> set (indexed xs) \<Longrightarrow> x \<in> set xs"
  by (auto simp: indexed_def dest: set_zip_rightD)

lemma digit_not_underscore: "d < 10 \<Longrightarrow> ''0123456789'' ! d \<noteq> CHR ''_''"
  using digit_code [of d] by (auto simp del: nth_Cons_numeral)

lemma decimal_no_underscore: "CHR ''_'' \<notin> set (decimal n)"
proof (induction n rule: decimal.induct)
  case (1 n)
  show ?case
  proof (cases "n < 10")
    case True
    then show ?thesis
      using digit_not_underscore [of n] by (subst decimal.simps) auto
  next
    case False
    with 1 have "CHR ''_'' \<notin> set (decimal (n div 10))" by simp
    then show ?thesis
      using False digit_not_underscore [of "n mod 10"] by (subst decimal.simps) auto
  qed
qed

lemma decimal_not_proto: "decimal n \<noteq> ''__proto__''"
  using decimal_no_underscore [of n] by auto

lemma indexed_not_proto: "p \<in> set (indexed xs) \<Longrightarrow> fst p \<noteq> ''__proto__''"
proof
  assume p: "p \<in> set (indexed xs)" and "fst p = ''__proto__''"
  obtain k v where "p = (k, v)" by (cases p)
  with p have "fst p \<in> set (map decimal [0..<length xs])"
    by (auto simp: indexed_def dest: set_zip_leftD)
  then obtain n where "fst p = decimal n" by auto
  with \<open>fst p = ''__proto__''\<close> decimal_not_proto [of n] show False by simp
qed

lemma encode_entries_indexed:
  "encode_entries toStr (indexed xs) = indexed (map (encoded_value toStr) xs)"
proof -
  have "filter (\<lambda>p. fst p \<noteq> ''__proto__'') (indexed ys) = indexed ys" for ys :: "attr list"
    by (rule filter_True) (auto dest: indexed_not_proto)
  moreover have "map (\<lambda>p. (fst p, encoded_value toStr (snd p))) (indexed xs)
      = indexed (map (encoded_value toStr) xs)"
    by (simp add: indexed_def zip_map2 split_def)
  ultimately show ?thesis by simp
qed

subsection \<open>The loop in closed form\<close>

lemma set_prop_fresh:
  "name \<noteq> ''__proto__'' \<Longrightarrow> name \<notin> fst ` set obj \<Longrightarrow> set_prop obj name v = obj @ [(name, v)]"
  by (induction obj) (auto simp: set_prop_def)

lemma set_prop_proto: "set_prop obj ''__proto__'' v = obj"
  by (simp add: set_prop_def)

lemma entries_wellformed:
  assumes "wellformed data" and "Object_entries data = Inr entries"
  shows "distinct (map fst entries)" and "list_all (\<lambda>p. wellformed (snd p)) entries"
proof -
  show "distinct (map fst entries)"
    using assms by (cases data) (auto simp: distinct_keys_indexed)
  show "list_all (\<lambda>p. wellformed (snd p)) entries"
    using assms by (cases data) (auto simp: list_all_iff dest!: snd_in_indexed)
qed

text \<open>
  On a value whose objects have distinct keys, the loop adds one property per entry
  other than \<open>__proto__\<close>, in order, and a nested call returns the encoding of the
  nested value.
\<close>

lemma forEach_step:
  assumes "distinct (map fst result @ map fst ((name, val) # rest))"
    and "a = encoded_value toStr val"
    and "distinct (map fst (set_prop result name a) @ map fst rest) \<longrightarrow>
           forEach toStr rest (set_prop result name a)
             = Inr (set_prop result name a @ encode_entries toStr rest)"
  shows "forEach toStr rest (set_prop result name a)
     = Inr (result @ encode_entries toStr ((name, val) # rest))"
proof (cases "name = ''__proto__''")
  case True
  from assms(1) have "distinct (map fst result @ map fst rest)" by auto
  with assms(3) True show ?thesis by (simp add: set_prop_proto)
next
  case False
  from assms(1) have fresh: "name \<notin> fst ` set result" by auto
  from assms(1) have "distinct (map fst (result @ [(name, a)]) @ map fst rest)" by auto
  with assms(3) False assms(2) show ?thesis
    by (simp add: set_prop_fresh [OF False fresh])
qed

lemma convertToMapAttribute_refines:
  "wellformed data \<longrightarrow> (\<forall>entries. Object_entries data = Inr entries \<longrightarrow>
      convertToMapAttribute toStr data = Inr (encode_entries toStr entries))"
  "list_all (\<lambda>p. wellformed (snd p)) entries \<longrightarrow> distinct (map fst result @ map fst entries) \<longrightarrow>
      forEach toStr entries result = Inr (result @ encode_entries toStr entries)"
proof (induction toStr data and toStr entries result rule: convertToMapAttribute_forEach.induct)
  case (1 toStr data)
  show ?case
  proof (intro impI allI)
    fix entries
    assume wf: "wellformed data" and e: "Object_entries data = Inr entries"
    from entries_wellformed [OF wf e] 1 [OF e]
    show "convertToMapAttribute toStr data = Inr (encode_entries toStr entries)"
      using e by simp
  qed
next
  case (2 toStr result)
  show ?case by simp
next
  case (3 toStr name val rest result)
  show ?case
  proof (intro impI)
    assume wf: "list_all (\<lambda>p. wellformed (snd p)) ((name, val) # rest)"
      and d: "distinct (map fst result @ map fst ((name, val) # rest))"
    from wf have wfr: "list_all (\<lambda>p. wellformed (snd p)) rest" and wfv: "wellformed val"
      by auto
    note step = forEach_step [OF d, of _ toStr]
    show "forEach toStr ((name, val) # rest) result =
        Inr (result @ encode_entries toStr ((name, val) # rest))"
    proof (cases val)
      case JNull
      have "forEach toStr rest (set_prop result name (NULL True))
          = Inr (result @ encode_entries toStr ((name, val) # rest))"
        using 3(1) [OF JNull] wfr JNull by (intro step) simp_all
      with JNull show ?thesis by simp
    next
      case JUndefined
      have "forEach toStr rest (set_prop result name (NULL True))
          = Inr (result @ encode_entries toStr ((name, val) # rest))"
        using 3(2) [OF JUndefined] wfr JUndefined by (intro step) simp_all
      with JUndefined show ?thesis by simp
    next
      case (JBool b)
      have "forEach toStr rest (set_prop result name (BOOL b))
          = Inr (result @ encode_entries toStr ((name, val) # rest))"
        using 3(3) [OF JBool] wfr JBool by (intro step) simp_all
      with JBool show ?thesis by simp
    next
      case (JNum n)
      have "forEach toStr rest (set_prop result name (N (toStr n)))
          = Inr (result @ encode_entries toStr ((name, val) # rest))"
        using 3(4) [OF JNum] wfr JNum by (intro step) simp_all
      with JNum show ?thesis by simp
    next
      case (JStr s)
      show ?thesis
      proof (cases "s = ''N/A''")
        case True
        have "forEach toStr rest (set_prop result name (NULL True))
            = Inr (result @ encode_entries toStr ((name, val) # rest))"
          using 3(5) [OF JStr True] wfr JStr True by (intro step) simp_all
        with JStr True show ?thesis by simp
      next
        case False
        have "forEach toStr rest (set_prop result name (S s))
            = Inr (result @ encode_entries toStr ((name, val) # rest))"
          using 3(6) [OF JStr False] wfr JStr False by (intro step) simp_all
        with JStr False show ?thesis by simp
      qed
    next
      case (JArr xs)
      with 3(7) wfv
      have c: "convertToMapAttribute toStr val = Inr (encode_entries toStr (indexed xs))"
        by simp
      have "forEach toStr rest (set_prop result name (M (encode_entries toStr (indexed xs))))
          = Inr (result @ encode_entries toStr ((name, val) # rest))"
        using 3(8) [OF JArr c] wfr JArr
        by (intro step) (simp_all add: encode_entries_indexed)
      with JArr c show ?thesis by simp
    next
      case (JObj kvs)
      with 3(9) wfv have c: "convertToMapAttribute toStr val = Inr (encode_entries toStr kvs)"
        by simp
      have "forEach toStr rest (set_prop result name (M (encode_entries toStr kvs)))
          = Inr (result @ encode_entries toStr ((name, val) # rest))"
        using 3(10) [OF JObj c] wfr JObj
        by (intro step) simp_all
      with JObj c show ?thesis by simp
    qed
  qed
qed

lemma convertToMapAttribute_object:
  assumes "wellformed (JObj props)"
  shows "convertToMapAttribute toStr (JObj props) = Inr (encode_entries toStr props)"
  using convertToMapAttribute_refines(1) [of "JObj props" toStr] assms by simp

lemma map_of_encode_entries:
  "distinct (map fst kvs) \<Longrightarrow> (k, v) \<in> set kvs \<Longrightarrow> k \<noteq> ''__proto__'' \<Longrightarrow>
     map_of (encode_entries toStr kvs) k = Some (encoded_value toStr v)"
  by (induction kvs) (auto simp: rev_image_eqI)

lemma map_of_encode_entries_proto: "map_of (encode_entries toStr kvs) ''__proto__'' = None"
  by (induction kvs) auto

lemma keys_encode_entries:
  "map fst (encode_entries toStr kvs) = filter (\<lambda>k. k \<noteq> ''__proto__'') (map fst kvs)"
  by (induction kvs) auto

text \<open>
  The encoder returns on every input that \<open>Object.entries\<close> accepts, whatever the keys.
\<close>

lemma convertToMapAttribute_returns:
  "\<forall>entries. Object_entries data = Inr entries \<longrightarrow>
     (\<exists>m. convertToMapAttribute toStr data = Inr m)"
  "\<exists>m. forEach toStr entries result = Inr m"
proof (induction toStr data and toStr entries result rule: convertToMapAttribute_forEach.induct)
  case (1 toStr data)
  then show ?case by auto
next
  case (2 toStr result)
  show ?case by simp
next
  case (3 toStr name val rest result)
  show ?case
  proof (cases val)
    case (JArr xs)
    with 3(7) obtain m where "convertToMapAttribute toStr val = Inr m" by auto
    with 3(8) JArr show ?thesis by simp
  next
    case (JObj kvs)
    with 3(9) obtain m where "convertToMapAttribute toStr val = Inr m" by auto
    with 3(10) JObj show ?thesis by simp
  qed (use 3 in auto)
qed

lemma convertToMapAttribute_total:
  assumes "data \<noteq> JNull" and "data \<noteq> JUndefined"
  shows "\<exists>m. convertToMapAttribute toStr data = Inr m"
proof -
  from assms obtain entries where "Object_entries data = Inr entries"
    by (cases data) auto
  with convertToMapAttribute_returns(1) [of data toStr] show ?thesis by blast
qed

subsection \<open>The rules, field by field\<close>

text \<open>
  For every object (its keys distinct, as in every JavaScript object) the encoder returns
  a map whose keys are those of the object other than \<open>__proto__\<close>, in which each
  field with another name is encoded by its value: \<open>null\<close>, \<open>undefined\<close> and the
  string \<open>N/A\<close> as \<open>{NULL: true}\<close>; a boolean as \<open>{BOOL: value}\<close>; a number as
  \<open>{N: value.toString()}\<close>; a nested object as \<open>{M: m}\<close> with \<open>m\<close> what the encoder
  returns on the nested object, the empty object as \<open>{M: {}}\<close>; any other string as
  \<open>{S: value}\<close>.
\<close>

lemma convertToMapAttribute_field_rules:
  assumes "wellformed (JObj props)" and "(name, value) \<in> set props"
    and "name \<noteq> ''__proto__''"
  shows "\<exists>result. convertToMapAttribute toStr (JObj props) = Inr result
      \<and> map fst result = filter (\<lambda>k. k \<noteq> ''__proto__'') (map fst props)
      \<and> map_of result ''__proto__'' = None
      \<and> (value = JNull \<or> value = JUndefined \<or> value = JStr ''N/A''
            \<longrightarrow> map_of result name = Some (NULL True))
      \<and> (\<forall>b. value = JBool b \<longrightarrow> map_of result name = Some (BOOL b))
      \<and> (\<forall>n. value = JNum n \<longrightarrow> map_of result name = Some (N (toStr n)))
      \<and> (\<forall>nested. value = JObj nested \<longrightarrow>
            (\<exists>m. convertToMapAttribute toStr value = Inr m \<and> map_of result name = Some (M m)))
      \<and> (value = JObj [] \<longrightarrow> map_of result name = Some (M []))
      \<and> (\<forall>s. value = JStr s \<and> s \<noteq> ''N/A'' \<longrightarrow> map_of result name = Some (S s))"
proof -
  let ?result = "encode_entries toStr props"
  have r: "convertToMapAttribute toStr (JObj props) = Inr ?result"
    by (rule convertToMapAttribute_object [OF assms(1)])
  from assms have d: "distinct (map fst props)" and wfv: "wellformed value"
    by (auto simp: list_all_iff)
  have look: "map_of ?result name = Some (encoded_value toStr value)"
    by (rule map_of_encode_entries [OF d assms(2,3)])
  have nested: "convertToMapAttribute toStr value = Inr m \<and> encoded_value toStr value = M m"
    if "value = JObj nested" and "m = encode_entries toStr nested" for nested m
    using that wfv convertToMapAttribute_object [of nested toStr] by simp
  show ?thesis
    apply (rule exI [of _ ?result])
    apply (simp only: r look keys_encode_entries map_of_encode_entries_proto)
    using nested by auto
qed

text \<open>
  C3. The encoder does not map every field of an object: a field named \<open>__proto__\<close>,
  which a parsed request body can have, is not in the map it returns. The assignment
  \<open>result[key] = ...\<close> replaces the prototype of \<open>result\<close> for this key and adds
  no field.
\<close>

theorem convertToMapAttribute_drops_proto:
  "convertToMapAttribute toStr (JObj [(''__proto__'', JNum n), (''a'', JNum m)])
     = Inr [(''a'', N (toStr m))]"
  by (simp add: set_prop_def)



text \<open>
  C4. The encoder is not total on the values a parsed request body can be: on
  \<open>null\<close> at the top level (and on \<open>undefined\<close>) \<open>Object.entries\<close> throws, so the
  encoder, \<open>createUpdateCommand\<close> and \<open>updateMetadata\<close> end with a TypeError, the
  last before any request is sent.
\<close>

theorem convertToMapAttribute_null_throws:
  "convertToMapAttribute toStr JNull = Inl TypeError
   \<and> convertToMapAttribute toStr JUndefined = Inl TypeError
   \<and> createUpdateCommand toStr METADATA_TECHNICAL JNull = Inl TypeError
   \<and> updateMetadata toStr userId assetId METADATA_TECHNICAL JNull db = (Inl TypeError, db)"
  by (simp add: createUpdateCommand_def updateMetadata_def UPDATE_PATHS_def
      VALIDATION_BASIC_def VALIDATION_STREAM_def METADATA_TECHNICAL_def)

section \<open>The backing store: reading and writing document paths\<close>

lemma get_path_head:
  "map_of it a = map_of it' a \<Longrightarrow> get_path (a # q) it = get_path (a # q) it'"
  by (cases q) simp_all

lemma overlap_Nil [simp]: "overlap p []" "overlap [] p"
  by (simp_all add: overlap_def)

lemma overlap_Cons [simp]: "overlap (a # p) (b # q) = (a = b \<and> overlap p q)"
  by (auto simp: overlap_def)

lemma overlap_sym: "overlap p q = overlap q p"
  by (auto simp: overlap_def)

lemma set_path_get: "set_path p v it = Some it' \<Longrightarrow> get_path p it' = Some v"
proof (induction p v it arbitrary: it' rule: set_path.induct)
  case (3 a b rest v it)
  then show ?case
    by (auto simp: update_conv' split: option.splits attr.splits)
qed (auto simp: update_conv')

lemma set_path_frame:
  "set_path p v it = Some it' \<Longrightarrow> \<not> overlap p q \<Longrightarrow> get_path q it' = get_path q it"
proof (induction p v it arbitrary: it' q rule: set_path.induct)
  case (1 v it)
  then show ?case by simp
next
  case (2 a v it)
  then obtain b q' where q: "q = b # q'" and "b \<noteq> a" by (cases q) auto
  with 2 show ?case by (auto intro!: get_path_head simp: update_conv')
next
  case (3 a b rest v it)
  from 3(2) obtain sub sub' where s: "map_of it a = Some (M sub)"
      "set_path (b # rest) v sub = Some sub'" "it' = AList.update a (M sub') it"
    by (auto split: option.splits attr.splits)
  from 3(3) obtain c q' where q: "q = c # q'" by (cases q) auto
  show ?case
  proof (cases "c = a")
    case False
    with s q show ?thesis by (auto intro!: get_path_head simp: update_conv')
  next
    case True
    with 3(3) q obtain d q'' where q': "q' = d # q''" by (cases q') auto
    with 3(3) q True have "\<not> overlap (b # rest) (d # q'')" by simp
    from 3(1) [OF s(1) refl s(2) this] s q q' True show ?thesis
      by (simp add: update_conv')
  qed
qed

lemma set_path_prefix_map:
  "set_path p v it = Some it' \<Longrightarrow> is_prefix q p \<Longrightarrow> q \<noteq> p \<Longrightarrow> q \<noteq> [] \<Longrightarrow>
     is_map (get_path q it')"
proof (induction p v it arbitrary: it' q rule: set_path.induct)
  case (1 v it)
  then show ?case by simp
next
  case (2 a v it)
  then show ?case by (cases q; cases "tl q") auto
next
  case (3 a b rest v it)
  from 3(2) obtain sub sub' where s: "map_of it a = Some (M sub)"
      "set_path (b # rest) v sub = Some sub'" "it' = AList.update a (M sub') it"
    by (auto split: option.splits attr.splits)
  from 3(3,5) obtain q' where q: "q = a # q'" and pre: "is_prefix q' (b # rest)"
    by (cases q) auto
  show ?case
  proof (cases q')
    case Nil
    with s q show ?thesis by (simp add: update_conv')
  next
    case (Cons d q'')
    with 3(1) [OF s(1) refl s(2), of q'] pre 3(4) q s show ?thesis
      by (simp add: update_conv')
  qed
qed

lemma apply_actions_frame:
  "apply_actions acts it = Some it' \<Longrightarrow> \<forall>p \<in> fst ` set acts. \<not> overlap p q \<Longrightarrow>
     get_path q it' = get_path q it"
proof (induction acts arbitrary: it)
  case Nil
  then show ?case by simp
next
  case (Cons pv acts)
  obtain p v where pv: "pv = (p, v)" by (cases pv)
  with Cons.prems(1) obtain it1 where s: "set_path p v it = Some it1"
      and r: "apply_actions acts it1 = Some it'"
    by (auto split: option.splits)
  from Cons.IH [OF r] Cons.prems(2) have "get_path q it' = get_path q it1" by simp
  also from set_path_frame [OF s] Cons.prems(2) pv have "\<dots> = get_path q it" by simp
  finally show ?case .
qed

lemma apply_actions_value:
  "apply_actions acts it = Some it' \<Longrightarrow> \<not> overlapping (map fst acts) \<Longrightarrow> (p, v) \<in> set acts \<Longrightarrow>
     get_path p it' = Some v"
proof (induction acts arbitrary: it)
  case Nil
  then show ?case by simp
next
  case (Cons qw acts)
  obtain q w where qw: "qw = (q, w)" by (cases qw)
  with Cons.prems(1) obtain it1 where s: "set_path q w it = Some it1"
      and r: "apply_actions acts it1 = Some it'"
    by (auto split: option.splits)
  from Cons.prems(2) qw have no: "\<not> overlapping (map fst acts)"
      and others: "\<forall>p' \<in> fst ` set acts. \<not> overlap p' q"
    by (auto simp: list_ex_iff overlap_sym)
  show ?case
  proof (cases "(p, v) \<in> set acts")
    case True
    from Cons.IH [OF r no True] show ?thesis .
  next
    case False
    with Cons.prems(3) qw have "p = q" "v = w" by auto
    with apply_actions_frame [OF r others] set_path_get [OF s] show ?thesis by simp
  qed
qed

section \<open>What a request does\<close>

lemmas stage_defs = ProcessingStage_def UPLOAD_def VALIDATION_def METADATA_def GOP_CREATION_def
  TRANSCODING_def COMPLETION_def DISTRIBUTION_def

lemmas category_defs = MetadataPath_def VALIDATION_BASIC_def VALIDATION_STREAM_def
  METADATA_TECHNICAL_def METADATA_QUALITY_def METADATA_CONTENT_def

text \<open>
  An update request whose names and values resolve either is refused, for overlapping
  paths or for a path that is invalid for the item, or replaces the item.
\<close>

lemma key_of_Key [simp]: "key_of [(''userId'', S u), (''assetId'', S a)] = Some (u, a)"
  by (simp add: key_of_def)

lemma read_after_update [simp]:
  "read (db\<lparr>requests := r, items := AList.update k it' (items db)\<rparr>) k' p =
     (if k' = k then get_path p it' else read db k' p)"
  by (simp add: read_def update_conv')

lemma read_requests [simp]: "read (db\<lparr>requests := r\<rparr>) k p = read db k p"
  by (simp add: read_def)

lemma send_UpdateItem_ok:
  assumes "key_of (Key c) = Some k"
    and "those (map (resolve_action (ExpressionAttributeNames c) (ExpressionAttributeValues c))
            (UpdateExpression c)) = Some acts"
    and "\<not> overlapping (map fst acts)"
    and "apply_actions acts (case map_of (items db) k of None \<Rightarrow> Key c | Some it \<Rightarrow> it) = Some it'"
  shows "send (UpdateItem c) db =
    (Inr \<lparr>httpStatusCode = 200\<rparr>,
     db\<lparr>requests := requests db @ [UpdateItem c], items := AList.update k it' (items db)\<rparr>)"
  using assms by (simp add: send_def update_item_def Let_def)

lemma send_UpdateItem_cases:
  assumes "key_of (Key c) = Some k"
    and "those (map (resolve_action (ExpressionAttributeNames c) (ExpressionAttributeValues c))
            (UpdateExpression c)) = Some acts"
  shows "send (UpdateItem c) db =
    (if overlapping (map fst acts) then (Inl ValidationException, db\<lparr>requests := requests db @ [UpdateItem c]\<rparr>)
     else case apply_actions acts (case map_of (items db) k of None \<Rightarrow> Key c | Some it \<Rightarrow> it) of
       None \<Rightarrow> (Inl ValidationException, db\<lparr>requests := requests db @ [UpdateItem c]\<rparr>)
     | Some it' \<Rightarrow> (Inr \<lparr>httpStatusCode = 200\<rparr>,
          db\<lparr>requests := requests db @ [UpdateItem c], items := AList.update k it' (items db)\<rparr>))"
  using assms by (simp add: send_def update_item_def Let_def split: option.splits)

subsection \<open>\<open>InitializeRecord\<close>\<close>

lemma InitializeRecord_cases:
  "InitializeRecord userId assetId now now' db =
     (let c = initial_command userId assetId now now' in
      if (case map_of (items db) (userId, assetId) of
            None \<Rightarrow> True
          | Some it \<Rightarrow> map_of it ''userId'' = None \<and> map_of it ''assetId'' = None)
      then (Inr True, db\<lparr>requests := requests db @ [c],
              items := AList.update (userId, assetId) (initial_item userId assetId now now') (items db)\<rparr>)
      else (Inl ConditionalCheckFailedException, db\<lparr>requests := requests db @ [c]\<rparr>))"
  by (auto simp: InitializeRecord_def send_def Let_def key_of_def split: option.splits)

text \<open>
  C8. For every key with no record, \<open>InitializeRecord\<close> returns true and creates a
  record whose five metadata leaves are empty maps, whose seven stage flags and
  \<open>hasCriticalFailure\<close> are false, and whose \<open>createdAt\<close> is the clock reading of
  the call.
\<close>

theorem InitializeRecord_creates:
  assumes "map_of (items db) (userId, assetId) = None"
  shows "\<exists>db'. InitializeRecord userId assetId now now' db = (Inr True, db')
     \<and> read db' (userId, assetId) [''metadata'', ''validation'', ''basic''] = Some (M [])
     \<and> read db' (userId, assetId) [''metadata'', ''validation'', ''stream''] = Some (M [])
     \<and> read db' (userId, assetId) [''metadata'', ''technical''] = Some (M [])
     \<and> read db' (userId, assetId) [''metadata'', ''quality''] = Some (M [])
     \<and> read db' (userId, assetId) [''metadata'', ''content''] = Some (M [])
     \<and> (\<forall>stage \<in> set ProcessingStage.
           read db' (userId, assetId) [''progress'', stage] = Some (BOOL False))
     \<and> read db' (userId, assetId) [''progress'', ''hasCriticalFailure''] = Some (BOOL False)
     \<and> read db' (userId, assetId) [''createdAt''] = Some (S now)
     \<and> read db' (userId, assetId) [''userId''] = Some (S userId)
     \<and> read db' (userId, assetId) [''assetId''] = Some (S assetId)"
  using assms by (simp add: InitializeRecord_cases stage_defs)

theorem InitializeRecord_creates_witness:
  "\<exists>db'. InitializeRecord ''u1'' ''a1'' ''2024-05-01T10:00:00.000Z'' ''2024-05-01T10:00:00.001Z''
        \<lparr>items = [], requests = []\<rparr> = (Inr True, db')
     \<and> read db' (''u1'', ''a1'') [''metadata'', ''technical''] = Some (M [])
     \<and> read db' (''u1'', ''a1'') [''progress'', ''hasCriticalFailure''] = Some (BOOL False)
     \<and> read db' (''u1'', ''a1'') [''createdAt''] = Some (S ''2024-05-01T10:00:00.000Z'')"
  using InitializeRecord_creates [of "\<lparr>items = [], requests = []\<rparr>" "''u1''" "''a1''"
      "''2024-05-01T10:00:00.000Z''" "''2024-05-01T10:00:00.001Z''"]
  by auto

subsection \<open>The store with one record\<close>

lemma example_store_items:
  "items example_store =
     [((''u1'', ''a1''),
       initial_item ''u1'' ''a1'' ''2024-05-01T10:00:00.000Z'' ''2024-05-01T10:00:00.000Z'')]"
  by (simp add: example_store_def InitializeRecord_cases)

lemma example_store_initialized: "initialized example_store (''u1'', ''a1'')"
  by (simp add: initialized_def read_def example_store_items)

text \<open>
  C1. For every key that has a record (holding its key attributes, as every item of the
  table does), \<open>InitializeRecord\<close> leaves every item as it is, and the call ends with
  the exception \<open>ConditionalCheckFailedException\<close> of the refused put: it does not
  return false.
\<close>

theorem InitializeRecord_existing_throws:
  assumes "map_of (items db) (userId, assetId) = Some it"
    and "key_of it = Some (userId, assetId)"
  shows "\<exists>db'. InitializeRecord userId assetId now now' db = (Inl ConditionalCheckFailedException, db')
     \<and> items db' = items db"
  using assms by (auto simp: InitializeRecord_cases key_of_def split: option.splits)

theorem InitializeRecord_existing_throws_witness:
  "\<exists>db'. InitializeRecord ''u1'' ''a1'' ''2024-05-01T11:00:00.000Z'' ''2024-05-01T11:00:00.000Z''
        example_store = (Inl ConditionalCheckFailedException, db')
     \<and> items db' = items example_store"
  using InitializeRecord_existing_throws [of example_store "''u1''" "''a1''"
      "initial_item ''u1'' ''a1'' ''2024-05-01T10:00:00.000Z'' ''2024-05-01T10:00:00.000Z''"
      "''2024-05-01T11:00:00.000Z''" "''2024-05-01T11:00:00.000Z''"]
  by (simp add: example_store_items key_of_def)

subsection \<open>\<open>updateProgress\<close>\<close>

lemma updateProgress_cases:
  "updateProgress userId assetId stage v now db =
    (let c = UpdateItem (progress_command userId assetId stage v now) in
     if stage = ''updatedAt'' then (Inl ValidationException, db\<lparr>requests := requests db @ [c]\<rparr>)
     else case apply_actions (progress_actions stage v now)
           (case map_of (items db) (userId, assetId) of
              None \<Rightarrow> [(''userId'', S userId), (''assetId'', S assetId)] | Some it \<Rightarrow> it) of
       None \<Rightarrow> (Inl ValidationException, db\<lparr>requests := requests db @ [c]\<rparr>)
     | Some it' \<Rightarrow> (Inr True,
          db\<lparr>requests := requests db @ [c], items := AList.update (userId, assetId) it' (items db)\<rparr>))"
  unfolding updateProgress_def Let_def
  by (subst send_UpdateItem_cases [where k = "(userId, assetId)"
        and acts = "progress_actions stage v now"])
    (simp_all add: progress_actions_def split: option.splits)

text \<open>
  C6. For each of the seven stages and each boolean, on a record whose \<open>progress\<close>
  is a map, \<open>updateProgress\<close> returns true after one request, an update whose
  expression holds both \<open>SET\<close> actions; afterwards the flag of the stage is the
  given boolean and \<open>progress.updatedAt\<close> is the clock reading of the call; every
  other stage flag, \<open>progress.hasCriticalFailure\<close>, the \<open>metadata\<close> document,
  every document path that overlaps neither written path, and every other record are
  as before.
\<close>

theorem updateProgress_sets_flag:
  assumes "stage \<in> set ProcessingStage"
    and "is_map (read db (userId, assetId) [''progress''])"
  shows "\<exists>db' c. updateProgress userId assetId stage v now db = (Inr True, db')
     \<and> requests db' = requests db @ [UpdateItem c]
     \<and> UpdateExpression c =
          [SET [Name ''progress'', Placeholder ''#stage''] '':value'',
           SET [Name ''progress'', Name ''updatedAt''] '':time'']
     \<and> read db' (userId, assetId) [''progress'', stage] = Some (BOOL v)
     \<and> read db' (userId, assetId) [''progress'', ''updatedAt''] = Some (S now)
     \<and> (\<forall>s \<in> set ProcessingStage. s \<noteq> stage \<longrightarrow>
           read db' (userId, assetId) [''progress'', s] = read db (userId, assetId) [''progress'', s])
     \<and> read db' (userId, assetId) [''progress'', ''hasCriticalFailure'']
          = read db (userId, assetId) [''progress'', ''hasCriticalFailure'']
     \<and> read db' (userId, assetId) [''metadata''] = read db (userId, assetId) [''metadata'']
     \<and> (\<forall>q. \<not> overlap [''progress'', stage] q \<and> \<not> overlap [''progress'', ''updatedAt''] q \<longrightarrow>
           read db' (userId, assetId) q = read db (userId, assetId) q)
     \<and> (\<forall>k. k \<noteq> (userId, assetId) \<longrightarrow> map_of (items db') k = map_of (items db) k)"
proof -
  let ?k = "(userId, assetId)"
  from assms(2) obtain it pr where it: "map_of (items db) ?k = Some it"
      and pr: "map_of it ''progress'' = Some (M pr)"
    by (auto simp: read_def split: option.splits elim: is_map.elims)
  from assms(1) have st: "stage \<noteq> ''updatedAt''" "stage \<noteq> ''hasCriticalFailure''"
    by (auto simp: stage_defs)
  obtain it' where ap: "apply_actions (progress_actions stage v now) it = Some it'"
    using pr by (simp add: progress_actions_def update_conv')
  have no: "\<not> overlapping (map fst (progress_actions stage v now))"
    using st by (simp add: progress_actions_def)
  define c where "c = progress_command userId assetId stage v now"
  have c: "UpdateExpression c =
          [SET [Name ''progress'', Placeholder ''#stage''] '':value'',
           SET [Name ''progress'', Name ''updatedAt''] '':time'']"
    by (simp add: c_def)
  have r: "updateProgress userId assetId stage v now db =
      (Inr True, db\<lparr>requests := requests db @ [UpdateItem c], items := AList.update ?k it' (items db)\<rparr>)"
    using st it ap by (simp add: updateProgress_cases c_def)
  let ?db' = "db\<lparr>requests := requests db @ [UpdateItem c], items := AList.update ?k it' (items db)\<rparr>"
  have frame: "get_path q it' = get_path q it"
    if "\<not> overlap [''progress'', stage] q" "\<not> overlap [''progress'', ''updatedAt''] q" for q
    using apply_actions_frame [OF ap, of q] that by (simp add: progress_actions_def)
  have rd: "read db ?k q = get_path q it" for q
    using it by (simp add: read_def)
  have "read ?db' ?k [''progress'', stage] = Some (BOOL v)"
    using apply_actions_value [OF ap no, of "[''progress'', stage]" "BOOL v"]
    by (simp add: progress_actions_def)
  moreover have "read ?db' ?k [''progress'', ''updatedAt''] = Some (S now)"
    using apply_actions_value [OF ap no, of "[''progress'', ''updatedAt'']" "S now"]
    by (simp add: progress_actions_def)
  moreover have "\<forall>s \<in> set ProcessingStage. s \<noteq> stage \<longrightarrow>
      read ?db' ?k [''progress'', s] = read db ?k [''progress'', s]"
  proof (intro ballI impI)
    fix s assume "s \<in> set ProcessingStage" and ne: "s \<noteq> stage"
    then have "s \<noteq> ''updatedAt''" by (auto simp: stage_defs)
    with ne have "\<not> overlap [''progress'', stage] [''progress'', s]"
      and "\<not> overlap [''progress'', ''updatedAt''] [''progress'', s]" by auto
    from frame [OF this] show "read ?db' ?k [''progress'', s] = read db ?k [''progress'', s]"
      by (simp add: rd del: get_path.simps)
  qed
  moreover have "read ?db' ?k [''progress'', ''hasCriticalFailure'']
      = read db ?k [''progress'', ''hasCriticalFailure'']"
    using frame [of "[''progress'', ''hasCriticalFailure'']"] st
    by (simp add: rd del: get_path.simps)
  moreover have "read ?db' ?k [''metadata''] = read db ?k [''metadata'']"
    using frame [of "[''metadata'']"]
    by (simp add: rd del: get_path.simps)
  moreover have "\<forall>q. \<not> overlap [''progress'', stage] q \<and> \<not> overlap [''progress'', ''updatedAt''] q \<longrightarrow>
      read ?db' ?k q = read db ?k q"
    using frame rd by simp
  moreover have "\<forall>k. k \<noteq> ?k \<longrightarrow> map_of (items ?db') k = map_of (items db) k"
    by (simp add: update_conv')
  ultimately show ?thesis using r c by (intro exI [of _ ?db'] exI [of _ c]) simp
qed

theorem updateProgress_sets_flag_witness:
  "\<exists>db'. updateProgress ''u1'' ''a1'' TRANSCODING True ''2024-05-01T10:05:00.000Z'' example_store
       = (Inr True, db')
     \<and> length (requests db') = length (requests example_store) + 1
     \<and> read db' (''u1'', ''a1'') [''progress'', TRANSCODING] = Some (BOOL True)
     \<and> read db' (''u1'', ''a1'') [''progress'', ''updatedAt''] = Some (S ''2024-05-01T10:05:00.000Z'')
     \<and> read db' (''u1'', ''a1'') [''metadata''] = read example_store (''u1'', ''a1'') [''metadata'']"
proof -
  have h1: "TRANSCODING \<in> set ProcessingStage"
    by (simp add: stage_defs)
  have h2: "is_map (read example_store (''u1'', ''a1'') [''progress''])"
    by (simp add: read_def example_store_items)
  from updateProgress_sets_flag [OF h1 h2, of True "''2024-05-01T10:05:00.000Z''"]
  obtain db' c where
      "updateProgress ''u1'' ''a1'' TRANSCODING True ''2024-05-01T10:05:00.000Z'' example_store
         = (Inr True, db')"
      "requests db' = requests example_store @ [UpdateItem c]"
      "read db' (''u1'', ''a1'') [''progress'', TRANSCODING] = Some (BOOL True)"
      "read db' (''u1'', ''a1'') [''progress'', ''updatedAt''] = Some (S ''2024-05-01T10:05:00.000Z'')"
      "read db' (''u1'', ''a1'') [''metadata''] = read example_store (''u1'', ''a1'') [''metadata'']"
    by blast
  then show ?thesis by (intro exI [of _ db']) simp
qed

subsection \<open>\<open>markCriticalFailure\<close>\<close>

lemma markCriticalFailure_cases:
  "markCriticalFailure userId assetId v now db =
    (let c = UpdateItem (failure_command userId assetId v now) in
     case apply_actions (failure_actions v now)
           (case map_of (items db) (userId, assetId) of
              None \<Rightarrow> key_item userId assetId | Some it \<Rightarrow> it) of
       None \<Rightarrow> (Inl ValidationException, db\<lparr>requests := requests db @ [c]\<rparr>)
     | Some it' \<Rightarrow> (Inr True,
          db\<lparr>requests := requests db @ [c], items := AList.update (userId, assetId) it' (items db)\<rparr>))"
  unfolding markCriticalFailure_def Let_def
  by (subst send_UpdateItem_cases [where k = "(userId, assetId)"
        and acts = "failure_actions v now"])
    (simp_all add: failure_actions_def split: option.splits)

subsection \<open>\<open>updateMetadata\<close>\<close>

lemma UPDATE_PATHS_cases:
  "map_of UPDATE_PATHS c = Some p \<Longrightarrow>
     p \<in> {[''metadata'', ''validation'', ''basic''], [''metadata'', ''validation'', ''stream''],
          [''metadata'', ''technical''], [''metadata'', ''quality''], [''metadata'', ''content'']}"
  by (auto simp: UPDATE_PATHS_def split: if_splits)

lemma UPDATE_PATHS_dom: "(map_of UPDATE_PATHS c \<noteq> None) = (c \<in> set MetadataPath)"
  by (auto simp: UPDATE_PATHS_def category_defs)

lemma resolve_placeholders:
  assumes "map_of UPDATE_PATHS c = Some p"
  shows "those (map (resolve_name (attribute_names p) \<circ> (\<lambda>x. Placeholder (CHR ''#'' # x))) p)
     = Some p"
  using UPDATE_PATHS_cases [OF assms] by (auto simp: set_prop_def)

lemma updateMetadata_cases:
  assumes "map_of UPDATE_PATHS c = Some p" and "convertToMapAttribute toStr data = Inr m"
  shows "updateMetadata toStr userId assetId c data db =
    (let cmd = UpdateItem (metadata_command userId assetId p m) in
     case set_path p (M m)
           (case map_of (items db) (userId, assetId) of
              None \<Rightarrow> key_item userId assetId | Some it \<Rightarrow> it) of
       None \<Rightarrow> (Inl ValidationException, db\<lparr>requests := requests db @ [cmd]\<rparr>)
     | Some it' \<Rightarrow> (Inr True,
          db\<lparr>requests := requests db @ [cmd], items := AList.update (userId, assetId) it' (items db)\<rparr>))"
proof -
  have cu: "createUpdateCommand toStr c data = Inr \<lparr>
        UpdateExpression = [SET (map (\<lambda>p. Placeholder (CHR ''#'' # p)) p) '':data''],
        ExpressionAttributeNames = attribute_names p,
        ExpressionAttributeValues = [('':data'', M m)]\<rparr>"
    using assms by (simp add: createUpdateCommand_def Let_def del: convertToMapAttribute.simps)
  have s: "send (UpdateItem (metadata_command userId assetId p m)) db =
    (case apply_actions [(p, M m)]
           (case map_of (items db) (userId, assetId) of
              None \<Rightarrow> key_item userId assetId | Some it \<Rightarrow> it) of
       None \<Rightarrow> (Inl ValidationException,
          db\<lparr>requests := requests db @ [UpdateItem (metadata_command userId assetId p m)]\<rparr>)
     | Some it' \<Rightarrow> (Inr \<lparr>httpStatusCode = 200\<rparr>,
          db\<lparr>requests := requests db @ [UpdateItem (metadata_command userId assetId p m)],
             items := AList.update (userId, assetId) it' (items db)\<rparr>))"
    by (subst send_UpdateItem_cases [where k = "(userId, assetId)" and acts = "[(p, M m)]"])
      (simp_all add: resolve_placeholders [OF assms(1)] split: option.splits)
  show ?thesis
    by (simp add: updateMetadata_def cu s Let_def split: option.splits
        del: convertToMapAttribute.simps)
qed

lemma updateMetadata_unknown:
  "c \<notin> set MetadataPath \<Longrightarrow> updateMetadata toStr userId assetId c data db = (Inl TypeError, db)"
  using UPDATE_PATHS_dom [of c]
  by (simp add: updateMetadata_def createUpdateCommand_def)

lemma updateMetadata_throws:
  "convertToMapAttribute toStr data = Inl e \<Longrightarrow>
     \<exists>e'. updateMetadata toStr userId assetId c data db = (Inl e', db)"
  by (simp add: updateMetadata_def createUpdateCommand_def Let_def split: option.splits)

lemma category_paths_disjoint:
  assumes "map_of UPDATE_PATHS c1 = Some p1" and "map_of UPDATE_PATHS c2 = Some p2" and "c1 \<noteq> c2"
  shows "\<not> overlap p1 p2"
  using assms by (auto simp: UPDATE_PATHS_def category_defs split: if_splits)

lemma category_path_progress:
  assumes "map_of UPDATE_PATHS c = Some p"
  shows "\<not> overlap p (''progress'' # q)"
  using UPDATE_PATHS_cases [OF assms] by auto

lemma updateMetadata_step:
  assumes c: "map_of UPDATE_PATHS c = Some p"
    and init: "initialized db (userId, assetId)"
    and enc: "convertToMapAttribute toStr data = Inr m"
  shows "\<exists>db'. updateMetadata toStr userId assetId c data db = (Inr True, db')
     \<and> read db' (userId, assetId) p = Some (M m)
     \<and> (\<forall>q. \<not> overlap p q \<longrightarrow> read db' (userId, assetId) q = read db (userId, assetId) q)
     \<and> (\<forall>k. k \<noteq> (userId, assetId) \<longrightarrow> map_of (items db') k = map_of (items db) k)
     \<and> initialized db' (userId, assetId)"
proof -
  let ?k = "(userId, assetId)"
  from init obtain it where it: "map_of (items db) ?k = Some it"
    by (auto simp: initialized_def read_def split: option.splits)
  then have rd: "read db ?k q = get_path q it" for q
    by (simp add: read_def)
  from init rd have md: "is_map (get_path [''metadata''] it)"
    and vd: "is_map (get_path [''metadata'', ''validation''] it)"
    and pr: "is_map (get_path [''progress''] it)"
    by (simp_all add: initialized_def)
  from md obtain mdoc where mdoc: "map_of it ''metadata'' = Some (M mdoc)"
    by (auto elim: is_map.elims)
  from vd mdoc obtain vdoc where vdoc: "map_of mdoc ''validation'' = Some (M vdoc)"
    by (auto elim: is_map.elims)
  obtain it' where sp: "set_path p (M m) it = Some it'"
    using UPDATE_PATHS_cases [OF c] mdoc vdoc by auto
  let ?db' = "db\<lparr>requests := requests db @ [UpdateItem (metadata_command userId assetId p m)],
      items := AList.update ?k it' (items db)\<rparr>"
  have r: "updateMetadata toStr userId assetId c data db = (Inr True, ?db')"
    using it sp by (simp add: updateMetadata_cases [OF c enc])
  have rd': "read ?db' ?k q = get_path q it'" for q
    by simp
  have frame: "get_path q it' = get_path q it" if "\<not> overlap p q" for q
    by (rule set_path_frame [OF sp that])
  have "is_map (get_path [''metadata''] it')"
    using UPDATE_PATHS_cases [OF c] by (intro set_path_prefix_map [OF sp]) auto
  moreover have "is_map (get_path [''metadata'', ''validation''] it')"
  proof (cases "is_prefix [''metadata'', ''validation''] p")
    case True
    with UPDATE_PATHS_cases [OF c] show ?thesis
      by (intro set_path_prefix_map [OF sp]) auto
  next
    case False
    with UPDATE_PATHS_cases [OF c] have "\<not> overlap p [''metadata'', ''validation'']"
      by auto
    from frame [OF this] vd show ?thesis by (simp del: get_path.simps)
  qed
  moreover have "is_map (get_path [''progress''] it')"
    using frame [OF category_path_progress [OF c, of "[]"]] pr by (simp del: get_path.simps)
  ultimately have "initialized ?db' ?k"
    unfolding initialized_def rd' by simp
  moreover have "read ?db' ?k p = Some (M m)"
    unfolding rd' by (rule set_path_get [OF sp])
  moreover have "\<forall>q. \<not> overlap p q \<longrightarrow> read ?db' ?k q = read db ?k q"
    unfolding rd' rd using frame by simp
  moreover have "\<forall>k. k \<noteq> ?k \<longrightarrow> map_of (items ?db') k = map_of (items db) k"
    by (simp add: update_conv')
  ultimately show ?thesis using r by (intro exI [of _ ?db']) simp
qed

text \<open>
  C2. On a record with the shape \<open>InitializeRecord\<close> gives it, for two distinct
  categories and data the encoder accepts, \<open>updateMetadata\<close> with the first and then
  with the second returns true twice, and afterwards both leaves hold their encoded
  data. Each call changes nothing at a document path that does not overlap the path of
  its category: the leaves of the other categories and the \<open>progress\<close> document are
  as before.
\<close>

theorem updateMetadata_isolation:
  assumes "c1 \<in> set MetadataPath" and "c2 \<in> set MetadataPath" and "c1 \<noteq> c2"
    and "initialized db (userId, assetId)"
    and "data1 \<noteq> JNull" and "data1 \<noteq> JUndefined"
    and "data2 \<noteq> JNull" and "data2 \<noteq> JUndefined"
  shows "\<exists>db1 db2 p1 p2 m1 m2.
       map_of UPDATE_PATHS c1 = Some p1 \<and> map_of UPDATE_PATHS c2 = Some p2
     \<and> convertToMapAttribute toStr data1 = Inr m1 \<and> convertToMapAttribute toStr data2 = Inr m2
     \<and> updateMetadata toStr userId assetId c1 data1 db = (Inr True, db1)
     \<and> updateMetadata toStr userId assetId c2 data2 db1 = (Inr True, db2)
     \<and> read db2 (userId, assetId) p1 = Some (M m1)
     \<and> read db2 (userId, assetId) p2 = Some (M m2)
     \<and> (\<forall>q. \<not> overlap p1 q \<longrightarrow> read db1 (userId, assetId) q = read db (userId, assetId) q)
     \<and> (\<forall>q. \<not> overlap p2 q \<longrightarrow> read db2 (userId, assetId) q = read db1 (userId, assetId) q)
     \<and> (\<forall>c p. c \<in> set MetadataPath \<and> c \<noteq> c1 \<and> c \<noteq> c2 \<and> map_of UPDATE_PATHS c = Some p \<longrightarrow>
           read db2 (userId, assetId) p = read db (userId, assetId) p)
     \<and> read db2 (userId, assetId) [''progress''] = read db (userId, assetId) [''progress'']"
proof -
  let ?k = "(userId, assetId)"
  from assms(1,2) obtain p1 p2 where p1: "map_of UPDATE_PATHS c1 = Some p1"
      and p2: "map_of UPDATE_PATHS c2 = Some p2"
    using UPDATE_PATHS_dom by blast
  from assms(5-8) obtain m1 m2 where m1: "convertToMapAttribute toStr data1 = Inr m1"
      and m2: "convertToMapAttribute toStr data2 = Inr m2"
    using convertToMapAttribute_total by blast
  from updateMetadata_step [OF p1 assms(4) m1] obtain db1 where
      u1: "updateMetadata toStr userId assetId c1 data1 db = (Inr True, db1)"
      and w1: "read db1 ?k p1 = Some (M m1)"
      and f1: "\<And>q. \<not> overlap p1 q \<Longrightarrow> read db1 ?k q = read db ?k q"
      and i1: "initialized db1 ?k"
    by blast
  from updateMetadata_step [OF p2 i1 m2] obtain db2 where
      u2: "updateMetadata toStr userId assetId c2 data2 db1 = (Inr True, db2)"
      and w2: "read db2 ?k p2 = Some (M m2)"
      and f2: "\<And>q. \<not> overlap p2 q \<Longrightarrow> read db2 ?k q = read db1 ?k q"
    by blast
  have "read db2 ?k p1 = Some (M m1)"
    using f2 [of p1] category_paths_disjoint [OF p2 p1] assms(3) w1 by simp
  moreover have "read db2 ?k p = read db ?k p"
    if "c \<noteq> c1" "c \<noteq> c2" "map_of UPDATE_PATHS c = Some p" for c p
    using f2 [of p] f1 [of p] category_paths_disjoint [OF p2 that(3)]
      category_paths_disjoint [OF p1 that(3)] that(1,2) by simp
  moreover have "read db2 ?k [''progress''] = read db ?k [''progress'']"
    using f2 [of "[''progress'']"] f1 [of "[''progress'']"]
      category_path_progress [OF p1, of "[]"] category_path_progress [OF p2, of "[]"] by simp
  ultimately have "map_of UPDATE_PATHS c1 = Some p1 \<and> map_of UPDATE_PATHS c2 = Some p2
     \<and> convertToMapAttribute toStr data1 = Inr m1 \<and> convertToMapAttribute toStr data2 = Inr m2
     \<and> updateMetadata toStr userId assetId c1 data1 db = (Inr True, db1)
     \<and> updateMetadata toStr userId assetId c2 data2 db1 = (Inr True, db2)
     \<and> read db2 ?k p1 = Some (M m1)
     \<and> read db2 ?k p2 = Some (M m2)
     \<and> (\<forall>q. \<not> overlap p1 q \<longrightarrow> read db1 ?k q = read db ?k q)
     \<and> (\<forall>q. \<not> overlap p2 q \<longrightarrow> read db2 ?k q = read db1 ?k q)
     \<and> (\<forall>c p. c \<in> set MetadataPath \<and> c \<noteq> c1 \<and> c \<noteq> c2 \<and> map_of UPDATE_PATHS c = Some p \<longrightarrow>
           read db2 ?k p = read db ?k p)
     \<and> read db2 ?k [''progress''] = read db ?k [''progress'']"
    using p1 p2 m1 m2 u1 u2 w2 f1 f2 by (auto simp del: convertToMapAttribute.simps)
  then show ?thesis by blast
qed

theorem updateMetadata_isolation_witness:
  "\<exists>db1 db2.
       updateMetadata decimal ''u1'' ''a1'' METADATA_TECHNICAL
         (JObj [(''codec'', JStr ''h264''), (''durationSec'', JNum 12)]) example_store = (Inr True, db1)
     \<and> updateMetadata decimal ''u1'' ''a1'' VALIDATION_BASIC (JObj [(''ok'', JBool True)]) db1
         = (Inr True, db2)
     \<and> read db2 (''u1'', ''a1'') [''metadata'', ''technical'']
         = Some (M [(''codec'', S ''h264''), (''durationSec'', N ''12'')])
     \<and> read db2 (''u1'', ''a1'') [''metadata'', ''validation'', ''basic''] = Some (M [(''ok'', BOOL True)])
     \<and> read db2 (''u1'', ''a1'') [''progress''] = read example_store (''u1'', ''a1'') [''progress'']"
proof -
  have c: "METADATA_TECHNICAL \<in> set MetadataPath" "VALIDATION_BASIC \<in> set MetadataPath"
      "METADATA_TECHNICAL \<noteq> VALIDATION_BASIC"
    by (simp_all add: category_defs)
  have d: "JObj [(''codec'', JStr ''h264''), (''durationSec'', JNum (12::nat))] \<noteq> JNull"
      "JObj [(''codec'', JStr ''h264''), (''durationSec'', JNum (12::nat))] \<noteq> JUndefined"
      "JObj [(''ok'', JBool True)] \<noteq> (JNull :: nat jsval)"
      "JObj [(''ok'', JBool True)] \<noteq> (JUndefined :: nat jsval)"
    by simp_all
  from updateMetadata_isolation [OF c example_store_initialized d, of decimal]
  obtain db1 db2 p1 p2 m1 m2 where
      p: "map_of UPDATE_PATHS METADATA_TECHNICAL = Some p1"
         "map_of UPDATE_PATHS VALIDATION_BASIC = Some p2"
      and m: "convertToMapAttribute decimal
                (JObj [(''codec'', JStr ''h264''), (''durationSec'', JNum 12)]) = Inr m1"
         "convertToMapAttribute decimal (JObj [(''ok'', JBool True)]) = Inr m2"
      and u: "updateMetadata decimal ''u1'' ''a1'' METADATA_TECHNICAL
                (JObj [(''codec'', JStr ''h264''), (''durationSec'', JNum 12)]) example_store
              = (Inr True, db1)"
         "updateMetadata decimal ''u1'' ''a1'' VALIDATION_BASIC (JObj [(''ok'', JBool True)]) db1
              = (Inr True, db2)"
      and r: "read db2 (''u1'', ''a1'') p1 = Some (M m1)" "read db2 (''u1'', ''a1'') p2 = Some (M m2)"
         "read db2 (''u1'', ''a1'') [''progress''] = read example_store (''u1'', ''a1'') [''progress'']"
    by (elim exE conjE) simp
  from p have "p1 = [''metadata'', ''technical'']" "p2 = [''metadata'', ''validation'', ''basic'']"
    by (simp_all add: UPDATE_PATHS_def category_defs)
  moreover from m have "m1 = [(''codec'', S ''h264''), (''durationSec'', N ''12'')]"
      "m2 = [(''ok'', BOOL True)]"
    by (auto simp: set_prop_def decimal.simps)
  ultimately show ?thesis using u r by blast
qed

section \<open>Inputs outside the enumerations\<close>

lemma send_no_TypeError: "fst (send command db) \<noteq> Inl TypeError"
  by (cases command)
    (auto simp: send_def Let_def split: option.splits if_splits)

lemma updateProgress_requests:
  "\<exists>command. requests (snd (updateProgress userId assetId stage v now db)) = requests db @ [command]"
  by (simp add: updateProgress_cases Let_def split: option.splits)

text \<open>
  C5, as the code has it. A category that is none of the five makes \<open>updateMetadata\<close>
  end with a TypeError before any request is sent: the store is as before, and a
  TypeError is no exception of the client. \<open>updateProgress\<close> does not look at its
  stage: whatever the stage is, the request is sent.
\<close>

theorem unknown_category_rejected:
  assumes "c \<notin> set MetadataPath"
  shows "updateMetadata toStr userId assetId c data db = (Inl TypeError, db)
     \<and> (\<forall>command db'. fst (send command db') \<noteq> Inl TypeError)
     \<and> (\<exists>command. requests (snd (updateProgress userId assetId stage v now db))
            = requests db @ [command])"
  using updateMetadata_unknown [OF assms] send_no_TypeError updateProgress_requests
  by blast

theorem unknown_category_rejected_witness:
  "updateMetadata decimal ''u1'' ''a1'' ''metadata.audio'' (JObj []) example_store
     = (Inl TypeError, example_store)"
  using unknown_category_rejected [of "''metadata.audio''" decimal "''u1''" "''a1''" "JObj []"
      example_store]
  by (simp add: category_defs)

text \<open>
  C5 as stated fails for \<open>updateProgress\<close>: a stage that is none of the seven is not
  rejected. The request is sent, the call returns true, and the record has a new flag
  under that name.
\<close>

theorem unknown_stage_accepted:
  "''thumbnails'' \<notin> set ProcessingStage
   \<and> (\<exists>db'. updateProgress ''u1'' ''a1'' ''thumbnails'' True ''2024-05-01T10:05:00.000Z''
              example_store = (Inr True, db')
          \<and> length (requests db') = Suc (length (requests example_store))
          \<and> read db' (''u1'', ''a1'') [''progress'', ''thumbnails''] = Some (BOOL True))"
  by (simp add: stage_defs updateProgress_cases progress_actions_def example_store_items read_def
      update_conv')

section \<open>\<open>progress.updatedAt\<close> across sequences of operations\<close>

lemma updatedAt_requests [simp]: "updatedAt (db\<lparr>requests := r\<rparr>) k = updatedAt db k"
  by (simp add: updatedAt_def)

lemma updatedAt_after_update:
  "updatedAt (db\<lparr>requests := r, items := AList.update k it' (items db)\<rparr>) k' =
     (if k' = k
      then (case get_path [''progress'', ''updatedAt''] it' of Some (S t) \<Rightarrow> Some t | _ \<Rightarrow> None)
      else updatedAt db k')"
  by (simp add: updatedAt_def del: get_path.simps)

lemma updatedAt_item:
  "updatedAt db k =
     (case get_path [''progress'', ''updatedAt'']
             (case map_of (items db) k of None \<Rightarrow> key_item u a | Some it \<Rightarrow> it) of
        Some (S t) \<Rightarrow> Some t | _ \<Rightarrow> None)"
  by (simp add: updatedAt_def read_def split: option.splits)

lemma updateProgress_updatedAt:
  "updatedAt (snd (updateProgress userId assetId stage v now db)) k = updatedAt db k
   \<or> updatedAt (snd (updateProgress userId assetId stage v now db)) k = Some now"
proof (cases "stage = ''updatedAt''")
  case True
  then show ?thesis by (simp add: updateProgress_cases)
next
  case False
  then have no: "\<not> overlapping (map fst (progress_actions stage v now))"
    by (simp add: progress_actions_def)
  let ?it = "case map_of (items db) (userId, assetId) of
      None \<Rightarrow> key_item userId assetId | Some it \<Rightarrow> it"
  show ?thesis
  proof (cases "apply_actions (progress_actions stage v now) ?it")
    case None
    with False show ?thesis by (simp add: updateProgress_cases)
  next
    case (Some it')
    from apply_actions_value [OF Some no, of "[''progress'', ''updatedAt'']" "S now"]
    have "get_path [''progress'', ''updatedAt''] it' = Some (S now)"
      by (simp add: progress_actions_def)
    with False Some show ?thesis
      by (simp add: updateProgress_cases updatedAt_after_update del: get_path.simps)
  qed
qed

lemma markCriticalFailure_updatedAt:
  "updatedAt (snd (markCriticalFailure userId assetId v now db)) k = updatedAt db k
   \<or> updatedAt (snd (markCriticalFailure userId assetId v now db)) k = Some now"
proof -
  have no: "\<not> overlapping (map fst (failure_actions v now))"
    by (simp add: failure_actions_def)
  let ?it = "case map_of (items db) (userId, assetId) of
      None \<Rightarrow> key_item userId assetId | Some it \<Rightarrow> it"
  show ?thesis
  proof (cases "apply_actions (failure_actions v now) ?it")
    case None
    then show ?thesis by (simp add: markCriticalFailure_cases)
  next
    case (Some it')
    from apply_actions_value [OF Some no, of "[''progress'', ''updatedAt'']" "S now"]
    have "get_path [''progress'', ''updatedAt''] it' = Some (S now)"
      by (simp add: failure_actions_def)
    with Some show ?thesis
      by (simp add: markCriticalFailure_cases updatedAt_after_update del: get_path.simps)
  qed
qed

lemma updateMetadata_progress:
  "read (snd (updateMetadata toStr userId assetId c data db)) k (''progress'' # q)
     = read db k (''progress'' # q)"
proof (cases "map_of UPDATE_PATHS c")
  case None
  then show ?thesis by (simp add: updateMetadata_def createUpdateCommand_def)
next
  case (Some p)
  show ?thesis
  proof (cases "convertToMapAttribute toStr data")
    case (Inl e)
    from updateMetadata_throws [OF this] show ?thesis by (metis snd_conv)
  next
    case (Inr m)
    let ?it = "case map_of (items db) (userId, assetId) of
        None \<Rightarrow> key_item userId assetId | Some it \<Rightarrow> it"
    show ?thesis
    proof (cases "set_path p (M m) ?it")
      case None
      then show ?thesis by (simp add: updateMetadata_cases [OF Some Inr])
    next
      case sp: (Some it')
      have "get_path (''progress'' # q) it' = get_path (''progress'' # q) ?it"
        by (rule set_path_frame [OF sp category_path_progress [OF Some]])
      moreover have "read db (userId, assetId) (''progress'' # q) = get_path (''progress'' # q) ?it"
        by (cases q) (simp_all add: read_def split: option.splits)
      ultimately show ?thesis using sp
        by (simp add: updateMetadata_cases [OF Some Inr] del: get_path.simps)
    qed
  qed
qed

lemma updateMetadata_updatedAt:
  "updatedAt (snd (updateMetadata toStr userId assetId c data db)) k = updatedAt db k"
  by (simp add: updatedAt_def updateMetadata_progress del: get_path.simps)

lemma InitializeRecord_updatedAt:
  "updatedAt (snd (InitializeRecord userId assetId now now' db)) k = updatedAt db k
   \<or> updatedAt (snd (InitializeRecord userId assetId now now' db)) k = Some now'"
  by (simp add: InitializeRecord_cases updatedAt_after_update Let_def)

lemma perform_updatedAt:
  "updatedAt (snd (perform toStr op db)) k = updatedAt db k
   \<or> (\<exists>t \<in> set (clock op). updatedAt (snd (perform toStr op db)) k = Some t)"
proof (cases op)
  case (Initialize userId assetId now now')
  then show ?thesis using InitializeRecord_updatedAt [of userId assetId now now' db k] by auto
next
  case (UpdateMetadata userId assetId path data)
  then show ?thesis by (simp add: updateMetadata_updatedAt)
next
  case (UpdateProgress userId assetId stage v now)
  then show ?thesis using updateProgress_updatedAt [of userId assetId stage v now db k] by auto
next
  case (MarkCriticalFailure userId assetId v now)
  then show ?thesis using markCriticalFailure_updatedAt [of userId assetId v now db k] by auto
qed

lemma run_append: "run toStr (ops @ ops') db = run toStr ops' (run toStr ops db)"
  by (induction ops arbitrary: db) simp_all

lemma run_updatedAt:
  "updatedAt db k = Some t \<Longrightarrow> sorted (t # concat (map clock ops) @ later) \<Longrightarrow>
     \<exists>t'. updatedAt (run toStr ops db) k = Some t' \<and> t \<le> t' \<and> sorted (t' # later)"
proof (induction ops arbitrary: db t)
  case Nil
  then show ?case by auto
next
  case (Cons op ops)
  let ?db = "snd (perform toStr op db)"
  from perform_updatedAt [of toStr op db k] Cons.prems(1)
  consider "updatedAt ?db k = Some t"
    | t1 where "t1 \<in> set (clock op)" "updatedAt ?db k = Some t1"
    by auto
  then show ?case
  proof cases
    case 1
    from Cons.prems(2) have "sorted (t # concat (map clock ops) @ later)"
      by (auto simp: sorted_append)
    from Cons.IH [OF 1 this] show ?thesis by simp
  next
    case 2
    from Cons.prems(2) 2(1) have "t \<le> t1" and "sorted (t1 # concat (map clock ops) @ later)"
      by (auto simp: sorted_append)
    from Cons.IH [OF 2(2) this(2)] \<open>t \<le> t1\<close> show ?thesis by auto
  qed
qed

lemma updateProgress_success:
  assumes "updateProgress userId assetId stage v now db = (Inr True, db')"
  shows "updatedAt db' (userId, assetId) = Some now"
proof -
  let ?it = "case map_of (items db) (userId, assetId) of
      None \<Rightarrow> key_item userId assetId | Some it \<Rightarrow> it"
  from assms have st: "stage \<noteq> ''updatedAt''"
    by (auto simp: updateProgress_cases Let_def)
  with assms obtain it' where ap: "apply_actions (progress_actions stage v now) ?it = Some it'"
      and db': "db' = db\<lparr>requests := requests db @
                  [UpdateItem (progress_command userId assetId stage v now)],
                items := AList.update (userId, assetId) it' (items db)\<rparr>"
    by (auto simp: updateProgress_cases Let_def split: option.splits)
  from st have no: "\<not> overlapping (map fst (progress_actions stage v now))"
    by (simp add: progress_actions_def)
  from apply_actions_value [OF ap no, of "[''progress'', ''updatedAt'']" "S now"]
  have "get_path [''progress'', ''updatedAt''] it' = Some (S now)"
    by (simp add: progress_actions_def)
  then show ?thesis
    unfolding db' by (simp add: updatedAt_after_update del: get_path.simps)
qed

lemma markCriticalFailure_success:
  assumes "markCriticalFailure userId assetId v now db = (Inr True, db')"
  shows "updatedAt db' (userId, assetId) = Some now"
    and "read db' (userId, assetId) [''progress'', ''hasCriticalFailure''] = Some (BOOL v)"
    and "\<forall>stage \<in> set ProcessingStage.
           read db' (userId, assetId) [''progress'', stage]
             = read db (userId, assetId) [''progress'', stage]"
proof -
  let ?k = "(userId, assetId)"
  let ?it = "case map_of (items db) ?k of None \<Rightarrow> key_item userId assetId | Some it \<Rightarrow> it"
  from assms obtain it' where ap: "apply_actions (failure_actions v now) ?it = Some it'"
      and db': "db' = db\<lparr>requests := requests db @
                  [UpdateItem (failure_command userId assetId v now)],
                items := AList.update ?k it' (items db)\<rparr>"
    by (auto simp: markCriticalFailure_cases Let_def split: option.splits)
  have no: "\<not> overlapping (map fst (failure_actions v now))"
    by (simp add: failure_actions_def)
  from ap obtain it where it: "map_of (items db) ?k = Some it"
    by (cases "map_of (items db) ?k") (simp_all add: failure_actions_def)
  from apply_actions_value [OF ap no, of "[''progress'', ''updatedAt'']" "S now"]
  have "get_path [''progress'', ''updatedAt''] it' = Some (S now)"
    by (simp add: failure_actions_def)
  then show "updatedAt db' ?k = Some now"
    unfolding db' by (simp add: updatedAt_after_update del: get_path.simps)
  from apply_actions_value [OF ap no, of "[''progress'', ''hasCriticalFailure'']" "BOOL v"]
  show "read db' ?k [''progress'', ''hasCriticalFailure''] = Some (BOOL v)"
    unfolding db' by (simp add: failure_actions_def del: get_path.simps)
  show "\<forall>stage \<in> set ProcessingStage.
      read db' ?k [''progress'', stage] = read db ?k [''progress'', stage]"
  proof
    fix stage assume "stage \<in> set ProcessingStage"
    then have "stage \<noteq> ''updatedAt''" "stage \<noteq> ''hasCriticalFailure''"
      by (auto simp: stage_defs)
    then have "\<forall>p \<in> fst ` set (failure_actions v now). \<not> overlap p [''progress'', stage]"
      by (simp add: failure_actions_def)
    from apply_actions_frame [OF ap this] it
    show "read db' ?k [''progress'', stage] = read db ?k [''progress'', stage]"
      unfolding db' by (simp add: read_def update_conv' del: get_path.simps)
  qed
qed

text \<open>
  C7, as the code has it. The code writes the clock reading of the call and does not
  compare it with the stored value. So when the clock readings of a sequence of
  operations are non-decreasing in the order of the calls, starting from the stored
  value, \<open>progress.updatedAt\<close> of a record is non-decreasing along the sequence. Every
  successful \<open>updateProgress\<close> and \<open>markCriticalFailure\<close> sets it to the reading of
  the call; \<open>updateMetadata\<close> never changes it, nor anything of \<open>progress\<close>;
  a successful \<open>markCriticalFailure\<close> sets \<open>hasCriticalFailure\<close> and leaves the
  seven stage flags as they are.
\<close>

theorem updatedAt_follows_clock:
  assumes "updatedAt db k = Some t"
    and "sorted (t # concat (map clock (ops @ ops')))"
  shows "(\<exists>t1 t2. updatedAt (run toStr ops db) k = Some t1
            \<and> updatedAt (run toStr (ops @ ops') db) k = Some t2 \<and> t \<le> t1 \<and> t1 \<le> t2)
    \<and> (\<forall>userId assetId stage v now db0 db1.
           updateProgress userId assetId stage v now db0 = (Inr True, db1)
           \<longrightarrow> updatedAt db1 (userId, assetId) = Some now)
    \<and> (\<forall>userId assetId v now db0 db1.
           markCriticalFailure userId assetId v now db0 = (Inr True, db1)
           \<longrightarrow> updatedAt db1 (userId, assetId) = Some now
             \<and> read db1 (userId, assetId) [''progress'', ''hasCriticalFailure''] = Some (BOOL v)
             \<and> (\<forall>stage \<in> set ProcessingStage.
                   read db1 (userId, assetId) [''progress'', stage]
                     = read db0 (userId, assetId) [''progress'', stage]))
    \<and> (\<forall>userId assetId c data db0 k'.
           updatedAt (snd (updateMetadata toStr userId assetId c data db0)) k' = updatedAt db0 k'
           \<and> read (snd (updateMetadata toStr userId assetId c data db0)) k' [''progress'']
               = read db0 k' [''progress''])"
proof (intro conjI)
  from assms(2) have s: "sorted (t # concat (map clock ops) @ concat (map clock ops'))"
    by simp
  from run_updatedAt [OF assms(1) s, of toStr] obtain t1 where
      t1: "updatedAt (run toStr ops db) k = Some t1" "t \<le> t1"
        "sorted (t1 # concat (map clock ops'))"
    by blast
  from run_updatedAt [OF t1(1), of ops' "[]" toStr] t1(3) obtain t2 where
      "updatedAt (run toStr ops' (run toStr ops db)) k = Some t2" "t1 \<le> t2"
    by auto
  with t1 show "\<exists>t1 t2. updatedAt (run toStr ops db) k = Some t1
            \<and> updatedAt (run toStr (ops @ ops') db) k = Some t2 \<and> t \<le> t1 \<and> t1 \<le> t2"
    by (auto simp: run_append)
  show "\<forall>userId assetId stage v now db0 db1.
           updateProgress userId assetId stage v now db0 = (Inr True, db1)
           \<longrightarrow> updatedAt db1 (userId, assetId) = Some now"
    using updateProgress_success by blast
  show "\<forall>userId assetId v now db0 db1.
           markCriticalFailure userId assetId v now db0 = (Inr True, db1)
           \<longrightarrow> updatedAt db1 (userId, assetId) = Some now
             \<and> read db1 (userId, assetId) [''progress'', ''hasCriticalFailure''] = Some (BOOL v)
             \<and> (\<forall>stage \<in> set ProcessingStage.
                   read db1 (userId, assetId) [''progress'', stage]
                     = read db0 (userId, assetId) [''progress'', stage])"
    using markCriticalFailure_success by blast
  show "\<forall>userId assetId c data db0 k'.
           updatedAt (snd (updateMetadata toStr userId assetId c data db0)) k' = updatedAt db0 k'
           \<and> read (snd (updateMetadata toStr userId assetId c data db0)) k' [''progress'']
               = read db0 k' [''progress'']"
    using updateMetadata_updatedAt updateMetadata_progress by blast
qed

theorem updatedAt_follows_clock_witness:
  "\<exists>t1 t2.
      updatedAt (run decimal
         [UpdateProgress ''u1'' ''a1'' UPLOAD True ''2024-05-01T10:05:00.000Z'']
         example_store) (''u1'', ''a1'') = Some t1
    \<and> updatedAt (run decimal
         ([UpdateProgress ''u1'' ''a1'' UPLOAD True ''2024-05-01T10:05:00.000Z'']
          @ [UpdateMetadata ''u1'' ''a1'' METADATA_QUALITY (JObj [(''score'', JNum 7)]),
             MarkCriticalFailure ''u1'' ''a1'' True ''2024-05-01T10:06:00.000Z''])
         example_store) (''u1'', ''a1'') = Some t2
    \<and> ''2024-05-01T10:00:00.000Z'' \<le> t1 \<and> t1 \<le> t2"
proof -
  have h1: "updatedAt example_store (''u1'', ''a1'') = Some ''2024-05-01T10:00:00.000Z''"
    by (simp add: updatedAt_def read_def example_store_items)
  have h2: "sorted (''2024-05-01T10:00:00.000Z'' # concat (map clock
      ([UpdateProgress ''u1'' ''a1'' UPLOAD True ''2024-05-01T10:05:00.000Z'']
       @ [UpdateMetadata ''u1'' ''a1'' METADATA_QUALITY (JObj [(''score'', JNum (7::nat))]),
          MarkCriticalFailure ''u1'' ''a1'' True ''2024-05-01T10:06:00.000Z''])))"
    by simp
  from updatedAt_follows_clock [OF h1 h2, of decimal] show ?thesis by blast
qed

text \<open>
  C7 as stated fails: nothing makes \<open>progress.updatedAt\<close> non-decreasing across every
  sequence of operations. Two successful writes, the second by a caller whose clock
  reads one second earlier, lower it.
\<close>

theorem updatedAt_decreases:
  "\<exists>db1 db2.
      updateProgress ''u1'' ''a1'' UPLOAD True ''2024-05-01T10:05:00.000Z'' example_store
        = (Inr True, db1)
    \<and> markCriticalFailure ''u1'' ''a1'' True ''2024-05-01T10:04:59.000Z'' db1 = (Inr True, db2)
    \<and> updatedAt db1 (''u1'', ''a1'') = Some ''2024-05-01T10:05:00.000Z''
    \<and> updatedAt db2 (''u1'', ''a1'') = Some ''2024-05-01T10:04:59.000Z''
    \<and> ''2024-05-01T10:04:59.000Z'' < ''2024-05-01T10:05:00.000Z''"
  by (simp add: updateProgress_cases markCriticalFailure_cases progress_actions_def
      failure_actions_def example_store_items update_conv' updatedAt_def read_def UPLOAD_def
      Let_def)

section \<open>The limits of the upload service, in base 2\<close>

lemma of_char_0: "(of_char c = (48::nat)) = (c = CHR ''0'')"
  using of_char_eq_iff [of c "CHR ''0''", where ?'a = nat] by simp

lemma of_char_1: "(of_char c = (49::nat)) = (c = CHR ''1'')"
  using of_char_eq_iff [of c "CHR ''1''", where ?'a = nat] by simp

lemma digit_value_binary: "(digit_value c < 2) = binary_digit c"
proof -
  have "(digit_value c < 2) = (of_char c = (48::nat) \<or> of_char c = (49::nat))"
    by (auto simp: digit_value_def Let_def)
  then show ?thesis by (simp add: of_char_0 of_char_1 binary_digit_def)
qed

lemma digit_value_bit:
  "binary_digit c \<Longrightarrow> digit_value c = (if c = CHR ''1'' then 1 else 0)"
  by (auto simp: binary_digit_def digit_value_def)

lemma foldl_binary:
  "list_all binary_digit ds \<Longrightarrow>
     int (foldl (\<lambda>mathInt c. mathInt * 2 + digit_value c) a ds)
       = int a * 2 ^ length ds + binary_value ds"
proof (induction ds arbitrary: a)
  case Nil
  then show ?case by (simp add: binary_value_def)
next
  case (Cons c ds)
  then have "binary_digit c" and ds: "list_all binary_digit ds" by simp_all
  have "binary_value (c # ds)
      = (if c = CHR ''1'' then 1 else 0) * 2 ^ length ds + binary_value ds"
    by (simp add: binary_value_def sum.lessThan_Suc_shift del: sum.lessThan_Suc)
  with Cons.IH [OF ds, of "a * 2 + digit_value c"] digit_value_bit [OF \<open>binary_digit c\<close>]
  show ?case by (simp add: algebra_simps)
qed

lemma whitespace_not_binary: "is_whitespace c \<Longrightarrow> \<not> binary_digit c"
  by (auto simp: is_whitespace_def binary_digit_def)

lemma whitespace_not_sign: "is_whitespace c \<Longrightarrow> c \<noteq> CHR ''+'' \<and> c \<noteq> CHR ''-''"
  by (auto simp: is_whitespace_def)

lemma takeWhile_digits:
  assumes "list_all binary_digit ds" and "rest = [] \<or> \<not> binary_digit (hd rest)"
  shows "takeWhile (\<lambda>c. digit_value c < 2) (ds @ rest) = ds"
proof -
  have "takeWhile binary_digit (ds @ rest) = ds"
    using assms by (cases rest) (auto simp: list_all_iff takeWhile_tail)
  then show ?thesis by (simp add: digit_value_binary [abs_def])
qed

lemma parseInt_2_steps:
  assumes "dropWhile is_whitespace string = str"
    and "(if str \<noteq> [] \<and> (hd str = CHR ''+'' \<or> hd str = CHR ''-'') then tl str else str) = str1"
    and "takeWhile (\<lambda>c. digit_value c < 2) str1 = Z"
  shows "parseInt string 2 =
     (if Z = [] then NaN
      else Number ((if str \<noteq> [] \<and> hd str = CHR ''-'' then - 1 else 1)
             * int (foldl (\<lambda>mathInt c. mathInt * 2 + digit_value c) 0 Z)))"
  using assms by (auto simp: parseInt_def Let_def)

lemma parseInt_radix_2:
  assumes "cut ws sign ds rest"
  shows "parseInt (ws @ sign @ ds @ rest) 2 =
     (if ds = [] then NaN else Number ((if sign = ''-'' then - 1 else 1) * binary_value ds))"
proof -
  from assms have ws: "list_all is_whitespace ws" and ds: "list_all binary_digit ds"
    and sg: "sign = [] \<or> sign = ''+'' \<or> sign = ''-''"
    and r: "rest = [] \<or> \<not> binary_digit (hd rest)"
    and r': "sign = [] \<Longrightarrow> ds = [] \<Longrightarrow> rest \<noteq> [] \<Longrightarrow>
        \<not> is_whitespace (hd rest) \<and> hd rest \<noteq> CHR ''+'' \<and> hd rest \<noteq> CHR ''-''"
    by (auto simp: cut_def)
  let ?str = "sign @ ds @ rest"
  have nw: "?str = [] \<or> \<not> is_whitespace (hd ?str)"
  proof (cases "sign = []")
    case False
    with sg show ?thesis using whitespace_not_sign [of "hd ?str"] by auto
  next
    case True
    show ?thesis
    proof (cases ds)
      case Nil
      with True r' show ?thesis by (cases rest) auto
    next
      case (Cons c cs)
      with ds True show ?thesis using whitespace_not_binary [of c] by auto
    qed
  qed
  have trim: "dropWhile is_whitespace (ws @ ?str) = ?str"
  proof -
    have "dropWhile is_whitespace (ws @ ?str) = dropWhile is_whitespace ?str"
      using ws by (simp add: list_all_iff)
    also have "\<dots> = ?str" using nw by (cases ?str) auto
    finally show ?thesis .
  qed
  have dig: "takeWhile (\<lambda>c. digit_value c < 2) (ds @ rest) = ds"
    by (rule takeWhile_digits [OF ds r])
  have val: "int (foldl (\<lambda>mathInt c. mathInt * 2 + digit_value c) 0 ds) = binary_value ds"
    using foldl_binary [OF ds, of 0] by simp
  have nosign: "ds @ rest = [] \<or> (hd (ds @ rest) \<noteq> CHR ''+'' \<and> hd (ds @ rest) \<noteq> CHR ''-'')"
    if "sign = []"
    using that ds r' by (cases ds) (auto simp: binary_digit_def)
  have strip: "(if ?str \<noteq> [] \<and> (hd ?str = CHR ''+'' \<or> hd ?str = CHR ''-'') then tl ?str else ?str)
      = ds @ rest"
    using sg nosign by auto
  have neg: "(?str \<noteq> [] \<and> hd ?str = CHR ''-'') = (sign = ''-'')"
    using sg nosign by auto
  show ?thesis
    unfolding parseInt_2_steps [OF trim strip dig] neg val by simp
qed

text \<open>
  C10, as the code has it. The two limits of an \<open>UploadService\<close> are \<open>parseInt\<close> of
  the strings with radix 2: after the leading white space and one optional sign, the
  base-2 value of the longest run of binary digits, negated after \<open>-\<close>, and \<open>NaN\<close>
  when no binary digit stands there. What follows the run, a decimal digit such as
  \<open>4\<close> included, is ignored, so a decimal limit is not read as decimal. These values
  are the upper bound of \<open>content-length-range\<close> and the \<open>Expires\<close> of every
  presigned post.
\<close>

theorem UploadService_limits_base_2:
  assumes "cut ws sign ds rest" and "cut ws' sign' ds' rest'"
  shows "uploadSizeLimit (UploadService_constructor bucketName regionName
            (ws @ sign @ ds @ rest) (ws' @ sign' @ ds' @ rest'))
       = (if ds = [] then NaN else Number ((if sign = ''-'' then - 1 else 1) * binary_value ds))
    \<and> uploadTimeLimit (UploadService_constructor bucketName regionName
            (ws @ sign @ ds @ rest) (ws' @ sign' @ ds' @ rest'))
       = (if ds' = [] then NaN else Number ((if sign' = ''-'' then - 1 else 1) * binary_value ds'))
    \<and> Conditions (fst (generatePreSignedPost createPresignedPost
            (UploadService_constructor bucketName regionName
               (ws @ sign @ ds @ rest) (ws' @ sign' @ ds' @ rest')) generatedKey))
       = [content_length_range (Number 1) (parseInt (ws @ sign @ ds @ rest) 2)]
    \<and> Expires (fst (generatePreSignedPost createPresignedPost
            (UploadService_constructor bucketName regionName
               (ws @ sign @ ds @ rest) (ws' @ sign' @ ds' @ rest')) generatedKey))
       = parseInt (ws' @ sign' @ ds' @ rest') 2"
  by (simp add: UploadService_constructor_def generatePreSignedPost_def Let_def
      parseInt_radix_2 [OF assms(1)] parseInt_radix_2 [OF assms(2)])

theorem UploadService_limits_base_2_witness:
  "uploadSizeLimit (UploadService_constructor ''uploads'' ''eu-west-1'' ''10485760'' ''300'')
     = Number 2
   \<and> uploadTimeLimit (UploadService_constructor ''uploads'' ''eu-west-1'' ''10485760'' ''300'')
     = NaN
   \<and> Conditions (fst (generatePreSignedPost (\<lambda>options. ''https://uploads.example/'')
          (UploadService_constructor ''uploads'' ''eu-west-1'' ''10485760'' ''300'') ''k''))
     = [content_length_range (Number 1) (parseInt ''10485760'' 2)]"
proof -
  have c1: "cut [] [] ''10'' ''485760''" and c2: "cut [] [] [] ''300''"
    by (simp_all add: cut_def binary_digit_def is_whitespace_def)
  have v: "binary_value ''10'' = 2"
    by (simp add: binary_value_def lessThan_Suc numeral_2_eq_2)
  from UploadService_limits_base_2 [OF c1 c2, of "''uploads''" "''eu-west-1''"
      "\<lambda>options. ''https://uploads.example/''" "''k''"] v
  show ?thesis by simp
qed

text \<open>
  C10 as stated fails on the strings that start with a sign or with white space: they
  do not start with \<open>0\<close> or \<open>1\<close>, and the limit is a number, not \<open>NaN\<close>.
\<close>

theorem UploadService_limit_signed:
  "hd ''-1'' \<noteq> CHR ''0'' \<and> hd ''-1'' \<noteq> CHR ''1''
   \<and> uploadSizeLimit (UploadService_constructor ''uploads'' ''eu-west-1'' ''-1'' ''1'')
        = Number (- 1)
   \<and> hd '' 1'' \<noteq> CHR ''0'' \<and> hd '' 1'' \<noteq> CHR ''1''
   \<and> uploadSizeLimit (UploadService_constructor ''uploads'' ''eu-west-1'' '' 1'' ''1'')
        = Number 1"
  by (simp add: UploadService_constructor_def parseInt_def Let_def is_whitespace_def
      digit_value_def)

end
